theory Spec2Isabelle
  imports Main
begin

section \<open>JavaScript strings\<close>

text \<open>
  A JavaScript string is a sequence of UTF-16 code units; \<open>charAt\<close>, \<open>slice\<close>,
  \<open>indexOf\<close> and \<open>split\<close> all count code units. A code unit is a natural number here,
  and \<open>js\<close> turns an ASCII literal into its code units.
\<close>

type_synonym jstring = "nat list"

definition js :: "string \<Rightarrow> jstring" where
  "js s = map of_char s"

text \<open>
  \<open>String.prototype.trim\<close> removes the WhiteSpace and LineTerminator code points of
  ECMAScript from both ends.
\<close>

definition is_space :: "nat \<Rightarrow> bool" where
  "is_space c \<longleftrightarrow>
     c = 0x09 \<or> c = 0x0A \<or> c = 0x0B \<or> c = 0x0C \<or> c = 0x0D \<or> c = 0x20 \<or> c = 0xA0 \<or>
     c = 0x1680 \<or> (0x2000 \<le> c \<and> c \<le> 0x200A) \<or> c = 0x2028 \<or> c = 0x2029 \<or>
     c = 0x202F \<or> c = 0x205F \<or> c = 0x3000 \<or> c = 0xFEFF"

definition trim :: "jstring \<Rightarrow> jstring" where
  "trim s = rev (dropWhile is_space (rev (dropWhile is_space s)))"

text \<open>
  \<open>toLowerCase\<close> and \<open>toUpperCase\<close> follow the Unicode case mappings. They are
  written out for the code units below \<open>0x100\<close> (Basic Latin and Latin-1 Supplement),
  where they are exact: the sharp s \<open>0xDF\<close> has the two-unit upper case \<open>SS\<close>, the
  micro sign and the y with diaeresis have their upper case outside Latin-1. Code
  units from \<open>0x100\<close> on are left as they are here, where JavaScript converts the
  cased letters of the other scripts as well (a few of them to more than one unit, the
  capital sigma by its position in the word). What is proved below uses the
  tables either on ASCII strings only, or only in that both conversions work unit by
  unit, keep the space apart from every other unit and never give an empty result, or
  names the conversion on both sides of an equation.
\<close>

definition lower1 :: "nat \<Rightarrow> nat" where
  "lower1 c =
     (if 0x41 \<le> c \<and> c \<le> 0x5A then c + 0x20
      else if 0xC0 \<le> c \<and> c \<le> 0xDE \<and> c \<noteq> 0xD7 then c + 0x20
      else c)"

definition upper1 :: "nat \<Rightarrow> jstring" where
  "upper1 c =
     (if 0x61 \<le> c \<and> c \<le> 0x7A then [c - 0x20]
      else if c = 0xDF then [0x53, 0x53]
      else if 0xE0 \<le> c \<and> c \<le> 0xFE \<and> c \<noteq> 0xF7 then [c - 0x20]
      else if c = 0xB5 then [0x39C]
      else if c = 0xFF then [0x178]
      else [c])"

definition toLowerCase :: "jstring \<Rightarrow> jstring" where
  "toLowerCase s = map lower1 s"

definition toUpperCase :: "jstring \<Rightarrow> jstring" where
  "toUpperCase s = concat (map upper1 s)"

text \<open>\<open>s.split(' ')\<close>: the pieces between single spaces; never an empty array.\<close>

fun split_space :: "jstring \<Rightarrow> jstring list" where
  "split_space [] = [[]]"
| "split_space (c # cs) =
     (if c = 0x20 then [] # split_space cs
      else (case split_space cs of
              [] \<Rightarrow> [[c]]
            | w # ws \<Rightarrow> (c # w) # ws))"

text \<open>\<open>ws.join(sep)\<close>.\<close>

fun join :: "jstring \<Rightarrow> jstring list \<Rightarrow> jstring" where
  "join sep [] = []"
| "join sep [w] = w"
| "join sep (w # v # ws) = w @ sep @ join sep (v # ws)"

text \<open>\<open>s.replace(/ /g, '_')\<close>.\<close>

definition replace_spaces :: "jstring \<Rightarrow> jstring" where
  "replace_spaces s = map (\<lambda>c. if c = 0x20 then 0x5F else c) s"

text \<open>\<open>s.replace(/_-$/, '')\<close> and \<open>s.replace(/:$/, '')\<close>: drop the suffix when it is there.\<close>

definition strip_suffix :: "jstring \<Rightarrow> jstring \<Rightarrow> jstring" where
  "strip_suffix suf s =
     (if length suf \<le> length s \<and> drop (length s - length suf) s = suf
      then take (length s - length suf) s else s)"

text \<open>\<open>s.indexOf(pat)\<close>, with \<open>None\<close> for \<open>-1\<close>.\<close>

fun indexOf :: "jstring \<Rightarrow> jstring \<Rightarrow> nat option" where
  "indexOf pat [] = (if pat = [] then Some 0 else None)"
| "indexOf pat (c # cs) =
     (if take (length pat) (c # cs) = pat then Some 0
      else map_option Suc (indexOf pat cs))"

section \<open>Title-casing\<close>

text \<open>
  \<^verbatim>\<open>capitalizeWords(text)\<close>: lower-case the text, split it at single spaces, upper-case
  \<open>charAt(0)\<close> of each piece, keep \<open>slice(1)\<close>, join with single spaces.
\<close>

definition capitalizeWord :: "jstring \<Rightarrow> jstring" where
  "capitalizeWord word = toUpperCase (take 1 word) @ drop 1 word"

definition capitalizeWords :: "jstring \<Rightarrow> jstring" where
  "capitalizeWords text = join (js '' '') (map capitalizeWord (split_space (toLowerCase text)))"


section \<open>The parsed page\<close>

text \<open>
  \<^verbatim>\<open>cheerio.load\<close> turns the page into a tree of elements, text nodes and
  comments; the extractors only query that tree. An element has its (lower-case) tag
  name, its attributes and its child nodes in document order.
\<close>

datatype node =
    Element jstring "(jstring \<times> jstring) list" "node list"
  | Text jstring
  | Comment jstring

type_synonym document = "node list"

fun childNodes :: "node \<Rightarrow> node list" where
  "childNodes (Element t a cs) = cs"
| "childNodes (Text s) = []"
| "childNodes (Comment s) = []"

text \<open>
  \<open>$(el).text()\<close>: the text nodes below the node, concatenated in document order; a
  comment has no text.
\<close>

fun text_of :: "node \<Rightarrow> jstring" where
  "text_of (Text s) = s"
| "text_of (Comment s) = []"
| "text_of (Element t a cs) = concat (map text_of cs)"

text \<open>\<open>sel.text()\<close> on a selection concatenates the text of every selected element.\<close>

definition sel_text :: "node list \<Rightarrow> jstring" where
  "sel_text els = concat (map text_of els)"

text \<open>\<open>$(el).attr(name)\<close>, with \<open>None\<close> for \<open>undefined\<close>; on a selection, the first element's.\<close>

fun attr :: "jstring \<Rightarrow> node \<Rightarrow> jstring option" where
  "attr n (Element t a cs) = map_of a n"
| "attr n (Text s) = None"
| "attr n (Comment s) = None"

definition sel_attr :: "jstring \<Rightarrow> node list \<Rightarrow> jstring option" where
  "sel_attr n els = (case els of [] \<Rightarrow> None | el # _ \<Rightarrow> attr n el)"

text \<open>Truthiness of a string that may be \<open>undefined\<close>: only a non-empty string is truthy.\<close>

definition truthy :: "jstring option \<Rightarrow> bool" where
  "truthy v = (case v of None \<Rightarrow> False | Some s \<Rightarrow> s \<noteq> [])"

subsection \<open>Selectors\<close>

text \<open>
  The selectors of the source are chains of compound selectors joined by the
  descendant combinator. A compound selector is a list of simple tests on one element.
\<close>

datatype simple = Tag jstring | Class jstring | AttrEq jstring jstring

text \<open>
  A class selector tests the class attribute with the regular expression
  \<open>(?:^|\s)name(?:$|\s)\<close>: the name must be one of the pieces of the attribute
  between white space, where white space is what \<open>\s\<close> matches, the same code units
  that \<open>trim\<close> removes.
\<close>

fun tokens :: "jstring \<Rightarrow> jstring \<Rightarrow> jstring list" where
  "tokens cur [] = (if cur = [] then [] else [cur])"
| "tokens cur (c # cs) =
     (if is_space c then (if cur = [] then [] else [cur]) @ tokens [] cs
      else tokens (cur @ [c]) cs)"

fun holds :: "simple \<Rightarrow> node \<Rightarrow> bool" where
  "holds (Tag t) (Element t' a cs) = (t' = t)"
| "holds (Class c) (Element t' a cs) =
     (case map_of a (js ''class'') of None \<Rightarrow> False | Some v \<Rightarrow> c \<in> set (tokens [] v))"
| "holds (AttrEq n v) (Element t' a cs) = (map_of a n = Some v)"
| "holds s (Text d) = False"
| "holds s (Comment d) = False"

definition matches :: "simple list \<Rightarrow> node \<Rightarrow> bool" where
  "matches c el = list_all (\<lambda>s. holds s el) c"

text \<open>
  \<open>select chain nodes\<close>: the elements at or below \<open>nodes\<close> that match the last compound
  of the chain and have, inside \<open>nodes\<close>, ancestors matching the compounds before it, in
  that order; each element once, in document order. It is \<open>$(chain)\<close> on the whole
  document.
\<close>

fun select :: "simple list list \<Rightarrow> node list \<Rightarrow> node list" where
  "select chain [] = []"
| "select chain (Text d # ns) = select chain ns"
| "select chain (Comment d # ns) = select chain ns"
| "select [] (Element t a cs # ns) = []"
| "select [c] (Element t a cs # ns) =
     (if matches c (Element t a cs) then [Element t a cs] else [])
       @ select [c] cs @ select [c] ns"
| "select (c # c' # chain) (Element t a cs # ns) =
     select (if matches c (Element t a cs) then c' # chain else c # c' # chain) cs
       @ select (c # c' # chain) ns"

text \<open>
  \<open>$(el).find(chain)\<close> looks for the elements below \<open>el\<close>, with the selector scoped to
  \<open>el\<close>: the compounds before the last must match \<open>el\<close> itself or elements below it,
  not elements above it. So the first compound of a longer chain is taken as found
  when \<open>el\<close> matches it.
\<close>

definition enter :: "simple list list \<Rightarrow> node \<Rightarrow> simple list list" where
  "enter chain el =
     (case chain of
        c # c' # rest \<Rightarrow> if matches c el then c' # rest else chain
      | _ \<Rightarrow> chain)"

definition find_in :: "simple list list \<Rightarrow> node \<Rightarrow> node list" where
  "find_in chain el = select (enter chain el) (childNodes el)"

text \<open>
  \<open>tbody > tr\<close>: the \<open>tr\<close> elements whose parent is a \<open>tbody\<close>; the flag says whether
  the parent of the nodes at hand is one (for \<open>find\<close> that parent may be the element
  searched from).
\<close>

fun tbody_rows :: "bool \<Rightarrow> node list \<Rightarrow> node list" where
  "tbody_rows in_tbody [] = []"
| "tbody_rows in_tbody (Text d # ns) = tbody_rows in_tbody ns"
| "tbody_rows in_tbody (Comment d # ns) = tbody_rows in_tbody ns"
| "tbody_rows in_tbody (Element t a cs # ns) =
     (if in_tbody \<and> t = js ''tr'' then [Element t a cs] else [])
       @ tbody_rows (t = js ''tbody'') cs @ tbody_rows in_tbody ns"

text \<open>
  The elements below \<open>nodes\<close> matching a compound, each with its \<open>nextSibling\<close>:
  the node after it among its parent's children, of whatever kind (\<open>None\<close> when it
  is the last child).
\<close>

fun find_with_next :: "simple list \<Rightarrow> node list \<Rightarrow> (node \<times> node option) list" where
  "find_with_next c [] = []"
| "find_with_next c (Text d # ns) = find_with_next c ns"
| "find_with_next c (Comment d # ns) = find_with_next c ns"
| "find_with_next c (Element t a cs # ns) =
     (if matches c (Element t a cs)
      then [(Element t a cs, case ns of [] \<Rightarrow> None | n # _ \<Rightarrow> Some n)] else [])
       @ find_with_next c cs @ find_with_next c ns"

section \<open>Values and objects\<close>

text \<open>
  An object literal inherits from \<open>Object.prototype\<close>. Reading \<open>obj[key]\<close> finds the
  object's own property or else the inherited member of that name; writing
  \<open>obj[key] = v\<close> creates or overwrites an own property, except under the key
  \<open>__proto__\<close>, whose inherited setter ignores a string. The inherited members are
  functions (and the prototype object itself), all truthy.
\<close>

datatype jsval = Str jstring | Inherited jstring

definition object_prototype_members :: "jstring list" where
  "object_prototype_members =
     [js ''constructor'', js ''__defineGetter__'', js ''__defineSetter__'',
      js ''hasOwnProperty'', js ''__lookupGetter__'', js ''__lookupSetter__'',
      js ''isPrototypeOf'', js ''propertyIsEnumerable'', js ''toString'',
      js ''valueOf'', js ''__proto__'', js ''toLocaleString'']"

definition get_prop :: "(jstring \<times> jstring) list \<Rightarrow> jstring \<Rightarrow> jsval option" where
  "get_prop obj key =
     (case map_of obj key of
        Some v \<Rightarrow> Some (Str v)
      | None \<Rightarrow> if key \<in> set object_prototype_members then Some (Inherited key) else None)"

type_synonym stats_object = "jstring \<rightharpoonup> jstring"

definition set_prop :: "stats_object \<Rightarrow> jstring \<Rightarrow> jstring \<Rightarrow> stats_object" where
  "set_prop obj key v = (if key = js ''__proto__'' then obj else obj(key \<mapsto> v))"

text \<open>
  The ability objects of the source: \<open>currentAbility\<close> has the four fields of
  \<open>ability_fields\<close>, the objects pushed to the output also have \<open>hero_id\<close>. \<open>'s\<close> is what
  the \<open>stats\<close> field holds: the object itself, or a reference to it where two ability
  objects share one.
\<close>

record 's ability_fields =
  name :: jstring
  type :: jsval
  description :: jstring
  stats :: 's

record 's ability_of = "'s ability_fields" +
  hero_id :: jstring

type_synonym ability = "stats_object ability_of"

section \<open>Difficulty\<close>

text \<open>
  \<^verbatim>\<open>extractDifficulty\<close>: the images below the \<open>div[data-source="difficulty"]\<close> panels
  whose \<open>alt\<close> is \<open>StarFull\<close> are counted; a count outside 1..5 gives \<open>null\<close>. The
  warnings written to the logger are not part of the model, here and below.
\<close>

definition or_empty :: "jstring option \<Rightarrow> jstring" where
  "or_empty v = (case v of None \<Rightarrow> [] | Some s \<Rightarrow> s)"

definition difficulty_panel :: "simple list" where
  "difficulty_panel = [Tag (js ''div''), AttrEq (js ''data-source'') (js ''difficulty'')]"

definition count_star :: "node \<Rightarrow> nat \<Rightarrow> nat" where
  "count_star img difficulty =
     (let src = or_empty (attr (js ''alt'') img) in
      if src = js ''StarFull'' then difficulty + 1 else difficulty)"

definition extractDifficulty :: "document \<Rightarrow> nat option" where
  "extractDifficulty page =
     (let difficultyDiv = select [difficulty_panel] page in
      if length difficultyDiv = 0 then None
      else
        let starImages = select [difficulty_panel, [Tag (js ''img'')]] page;
            difficulty = fold count_star starImages 0
        in if difficulty < 1 \<or> difficulty > 5 then None else Some difficulty)"

section \<open>Lore\<close>

definition biography_marker :: jstring where
  "biography_marker = 0x2014 # js '' Biography''"

definition blank_line :: jstring where
  "blank_line = [0x0A, 0x0A]"

definition add_paragraph :: "node \<Rightarrow> jstring \<Rightarrow> jstring" where
  "add_paragraph p loreContent =
     (let paragraph = trim (text_of p) in
      if paragraph \<noteq> [] then loreContent @ paragraph @ blank_line else loreContent)"

text \<open>
  The loop over the candidate blocks: it stops at the first one whose last \<open>p\<close> is the
  marker, and returns \<open>loreContent\<close> and \<open>biographyFound\<close>.
\<close>

fun find_biography :: "node list \<Rightarrow> jstring \<times> bool" where
  "find_biography [] = ([], False)"
| "find_biography (blockquote # rest) =
     (let pTags = find_in [[Tag (js ''p'')]] blockquote;
          lastPText = trim (case pTags of [] \<Rightarrow> [] | _ # _ \<Rightarrow> text_of (last pTags))
      in if lastPText = biography_marker
         then (fold add_paragraph (butlast pTags) [], True)
         else find_biography rest)"

definition lore_candidate :: "node \<Rightarrow> bool" where
  "lore_candidate el \<longleftrightarrow> \<not> truthy (attr (js ''id'') el) \<and> \<not> truthy (attr (js ''class'') el)"

definition getHeroLoreSection :: "document \<Rightarrow> jstring option" where
  "getHeroLoreSection page =
     (let loreBlockquotes = filter lore_candidate (select [[Tag (js ''blockquote'')]] page) in
      if length loreBlockquotes = 0 then None
      else
        let (loreContent, biographyFound) = find_biography loreBlockquotes in
        if \<not> biographyFound then None
        else
          let loreContent = trim loreContent in
          if loreContent = [] then None else Some loreContent)"

section \<open>Abilities, current format\<close>

text \<open>
  The type of a start row, from its first cell: with an image in the cell, the
  \<open>title\<close> of the first image (its \<open>alt\<close> when the title is missing or empty) decides,
  and the type stays empty unless it names a mouse button; without an image, the
  cell's text.
\<close>

definition start_type :: "node \<Rightarrow> jstring" where
  "start_type typeCell =
     (let typeImg = find_in [[Tag (js ''img'')]] typeCell in
      if length typeImg > 0 then
        let imgTitle = (if truthy (sel_attr (js ''title'') typeImg)
                        then sel_attr (js ''title'') typeImg
                        else sel_attr (js ''alt'') typeImg)
        in if imgTitle = Some (js ''Left mouse button'') then js ''Left Mouse Button''
           else if imgTitle = Some (js ''Right mouse button'') then js ''Right Mouse Button''
           else []
      else toUpperCase (trim (text_of typeCell)))"

text \<open>
  The key and value one \<open>b\<close> element contributes (the body of the loop over
  \<open>td.find('b')\<close>), or \<open>None\<close> when it stores nothing.
\<close>

definition normalize_key :: "jstring \<Rightarrow> jstring" where
  "normalize_key s = strip_suffix (js ''_-'') (replace_spaces (toLowerCase s))"

definition bold_stat :: "node \<times> node option \<Rightarrow> (jstring \<times> jstring) option" where
  "bold_stat b =
     (let fullText = trim (text_of (fst b)) in
      case indexOf (js '' - '') fullText of
        Some separatorIndex \<Rightarrow>
          let key = normalize_key (take separatorIndex fullText);
              v = trim (drop (separatorIndex + 3) fullText)
          in if key \<noteq> [] \<and> v \<noteq> [] then Some (key, v) else None
      | None \<Rightarrow>
          let nextText = (case snd b of Some sibling \<Rightarrow> trim (text_of sibling) | None \<Rightarrow> [])
          in if nextText \<noteq> [] then
               let key = normalize_key (strip_suffix (js '':'') fullText)
               in if key \<noteq> [] then Some (key, nextText) else None
             else None)"

text \<open>
  The state of the loop over the rows. The object pushed to \<open>abilitiesToInsert\<close> is a
  copy of \<open>currentAbility\<close> whose \<open>stats\<close> is the same object, so the stats objects live
  in a heap and both hold a reference (an index into it).
\<close>

record extract_state =
  currentAbility :: "nat ability_fields option"
  abilitiesToInsert :: "nat ability_of list"
  heap :: "stats_object list"

definition store_stat :: "nat \<Rightarrow> node \<times> node option \<Rightarrow> extract_state \<Rightarrow> extract_state" where
  "store_stat ref b st =
     (case bold_stat b of
        None \<Rightarrow> st
      | Some (key, v) \<Rightarrow> st\<lparr>heap := (heap st)[ref := set_prop (heap st ! ref) key v]\<rparr>)"

definition set_description :: "jstring \<Rightarrow> nat ability_fields \<Rightarrow> extract_state \<Rightarrow> extract_state" where
  "set_description d cur st =
     (let out = abilitiesToInsert st; i = length out - 1 in
      st\<lparr>currentAbility := Some (cur\<lparr>description := d\<rparr>),
         abilitiesToInsert := out[i := (out ! i)\<lparr>description := d\<rparr>]\<rparr>)"

text \<open>
  One row. \<open>td.html()\<close> is truthy exactly when the cell has a child node. The index
  \<open>abilitiesToInsert.length - 1\<close> is in range whenever \<open>currentAbility\<close> is set
  (\<open>current_is_last\<close> below).
\<close>

definition row_step :: "jstring \<Rightarrow> node \<Rightarrow> extract_state \<Rightarrow> extract_state" where
  "row_step heroId tr st =
     (let tds = find_in [[Tag (js ''td'')]] tr in
      if length tds = 3 then
        let ty = start_type (hd tds);
            nm = capitalizeWords (trim (text_of (last tds)));
            ref = length (heap st)
        in \<lparr>currentAbility =
              Some \<lparr>name = nm, type = Str ty, description = [], stats = ref\<rparr>,
            abilitiesToInsert = abilitiesToInsert st @
              [\<lparr>name = nm, type = Str ty, description = [], stats = ref, hero_id = heroId\<rparr>],
            heap = heap st @ [Map.empty]\<rparr>
      else
        case currentAbility st of
          None \<Rightarrow> st
        | Some cur \<Rightarrow>
            if length tds = 1 \<and> sel_attr (js ''colspan'') tds = Some (js ''3'') then
              let td = hd tds in
              if childNodes td \<noteq> [] then
                let d = trim (sel_text (find_in [[Tag (js ''small'')], [Tag (js ''i'')]] td));
                    st1 = (if d \<noteq> [] then set_description d cur st else st)
                in fold (store_stat (stats cur)) (find_with_next [Tag (js ''b'')] (childNodes td)) st1
              else st
            else st)"

definition deref :: "stats_object list \<Rightarrow> nat ability_of \<Rightarrow> ability" where
  "deref h a =
     \<lparr>name = name a, type = type a, description = description a, stats = h ! stats a,
      hero_id = hero_id a\<rparr>"

definition initial_state :: extract_state where
  "initial_state = \<lparr>currentAbility = None, abilitiesToInsert = [], heap = []\<rparr>"

definition ability_rows :: "node \<Rightarrow> node list" where
  "ability_rows skillTable = tbody_rows (holds (Tag (js ''tbody'')) skillTable) (childNodes skillTable)"

definition run_rows :: "jstring \<Rightarrow> node list \<Rightarrow> extract_state" where
  "run_rows heroId rows = fold (row_step heroId) rows initial_state"

definition result_of :: "extract_state \<Rightarrow> ability list" where
  "result_of st = map (deref (heap st)) (abilitiesToInsert st)"

definition extractNewFormatAbilities :: "node \<Rightarrow> jstring \<Rightarrow> ability list" where
  "extractNewFormatAbilities skillTable heroId = result_of (run_rows heroId (ability_rows skillTable))"

section \<open>Abilities, legacy format\<close>

text \<open>\<^verbatim>\<open>mapAbilityType\<close>: \<open>typeMap[rawType] || rawType\<close>.\<close>

definition typeMap :: "(jstring \<times> jstring) list" where
  "typeMap =
     [(js ''Primary 1'', js ''Left Mouse Button''),
      (js ''Primary 2'', js ''Right Mouse Button''),
      (js ''Primary'', js ''Left Mouse Button''),
      (js ''Q'', js ''Q''),
      (js ''E'', js ''E''),
      (js ''F'', js ''F''),
      (js ''Passive'', js ''Passive''),
      (js ''Left Shift'', js ''Left Shift'')]"

definition mapAbilityType :: "jstring \<Rightarrow> jsval" where
  "mapAbilityType rawType =
     (case get_prop typeMap rawType of
        None \<Rightarrow> Str rawType
      | Some (Str v) \<Rightarrow> if v \<noteq> [] then Str v else Str rawType
      | Some (Inherited m) \<Rightarrow> Inherited m)"

text \<open>
  One horizontal group: the \<open>i\<close>-th label with the \<open>i\<close>-th value; \<open>values.get(i)\<close> out
  of range is \<open>undefined\<close>, whose text is empty.
\<close>

definition label_step :: "node list \<Rightarrow> nat \<times> node \<Rightarrow> stats_object \<Rightarrow> stats_object" where
  "label_step values il st =
     (let key = replace_spaces (toLowerCase (trim (text_of (snd il))));
          v = trim (if fst il < length values then text_of (values ! fst il) else [])
      in if key \<noteq> [] \<and> v \<noteq> [] then set_prop st key v else st)"

definition group_step :: "node \<Rightarrow> stats_object \<Rightarrow> stats_object" where
  "group_step grp st =
     (let labels = find_in [[Class (js ''pi-data-label'')]] grp;
          values = find_in [[Class (js ''pi-data-value'')]] grp
      in fold (label_step values) (enumerate 0 labels) st)"

definition pi_data_value :: "jstring \<Rightarrow> simple list list" where
  "pi_data_value source =
     [[Class (js ''pi-data''), AttrEq (js ''data-source'') source], [Class (js ''pi-data-value'')]]"

definition legacy_ability :: "jstring \<Rightarrow> node \<Rightarrow> ability" where
  "legacy_ability heroId aside =
     (let nm = capitalizeWords (trim (sel_text (find_in [[Class (js ''pi-title'')]] aside)));
          rawType = trim (sel_text
            (find_in [[Tag (js ''td''), AttrEq (js ''data-source'') (js ''keybind'')]] aside));
          d = trim (sel_text (find_in (pi_data_value (js ''description'')) aside));
          st = fold group_step (find_in [[Class (js ''pi-horizontal-group'')]] aside) Map.empty;
          properties = trim (sel_text (find_in (pi_data_value (js ''properties'')) aside))
      in \<lparr>name = nm, type = mapAbilityType rawType, description = d,
          stats = (if properties \<noteq> [] then set_prop st (js ''properties'') properties else st),
          hero_id = heroId\<rparr>)"

definition legacy_asides :: "document \<Rightarrow> node list" where
  "legacy_asides page =
     select [[Class (js ''fandom-table'')], [Tag (js ''tbody'')], [Tag (js ''tr'')],
             [Tag (js ''td'')], [Tag (js ''aside'')]] page"

definition extractLegacyAbilities :: "document \<Rightarrow> jstring \<Rightarrow> ability list" where
  "extractLegacyAbilities page heroId = map (legacy_ability heroId) (legacy_asides page)"

text \<open>\<^verbatim>\<open>extractAbilities\<close>: the first skill table decides the strategy.\<close>

definition extractAbilities :: "document \<Rightarrow> jstring \<Rightarrow> ability list" where
  "extractAbilities page heroId =
     (case select [[Tag (js ''table''), Class (js ''wikitable''), Class (js ''skill-table'')]] page of
        skillTable # _ \<Rightarrow> extractNewFormatAbilities skillTable heroId
      | [] \<Rightarrow> extractLegacyAbilities page heroId)"

section \<open>Fetch-permission check\<close>

text \<open>
  The collaborators of the service: the URL constructor, the HTTP client, the
  robots.txt parser and its \<open>isAllowed\<close>, \<open>encodeURIComponent\<close> and \<^verbatim>\<open>cheerio.load\<close>.
  A call returns its value (\<open>Inr\<close>) or throws (\<open>Inl\<close>, the error's message).
  \<open>isAllowed\<close> answers \<open>true\<close>, \<open>false\<close> or \<open>undefined\<close> (\<open>None\<close>).
\<close>

record 'r web =
  new_URL :: "jstring \<Rightarrow> jstring \<Rightarrow> jstring + jstring"
  axios_get :: "jstring \<Rightarrow> jstring + jstring"
  robotsParser :: "jstring \<Rightarrow> jstring \<Rightarrow> jstring + 'r"
  isAllowed :: "'r \<Rightarrow> jstring \<Rightarrow> jstring \<Rightarrow> jstring + bool option"
  encodeURIComponent :: "jstring \<Rightarrow> jstring + jstring"
  load :: "jstring \<Rightarrow> document"

text \<open>\<^verbatim>\<open>canScrape\<close>: the \<open>catch\<close> covers the whole body and returns \<open>true\<close>.\<close>

definition canScrape :: "'r web \<Rightarrow> jstring \<Rightarrow> jstring \<Rightarrow> bool option" where
  "canScrape w url userAgent =
     (case new_URL w (js ''/robots.txt'') url of
        Inl error \<Rightarrow> Some True
      | Inr robotsUrl \<Rightarrow>
          (case axios_get w robotsUrl of
             Inl error \<Rightarrow> Some True
           | Inr data \<Rightarrow>
               (case robotsParser w robotsUrl data of
                  Inl error \<Rightarrow> Some True
                | Inr robots \<Rightarrow>
                    (case isAllowed w robots url userAgent of
                       Inl error \<Rightarrow> Some True
                     | Inr allowed \<Rightarrow> allowed))))"

section \<open>The ability pass\<close>

text \<open>
  The store is a table of rows. \<open>upsert(rows, {onConflict: cols})\<close> is an
  \<open>INSERT ... ON CONFLICT (cols) DO UPDATE\<close>: a row of the batch replaces the stored row
  that agrees with it on the conflict columns, or is added when there is none; a batch
  with two rows that agree on them is refused as a whole. \<open>key\<close> reads the conflict
  columns of a row.
\<close>

definition upsert_row :: "('a \<Rightarrow> 'k) \<Rightarrow> 'a \<Rightarrow> 'a list \<Rightarrow> 'a list" where
  "upsert_row key r table =
     (if key r \<in> set (map key table)
      then map (\<lambda>x. if key x = key r then r else x) table
      else table @ [r])"

definition upsert :: "('a \<Rightarrow> 'k) \<Rightarrow> 'a list \<Rightarrow> 'a list \<Rightarrow> jstring + 'a list" where
  "upsert key batch table =
     (if distinct (map key batch) then Inr (fold (upsert_row key) batch table)
      else Inl (js ''ON CONFLICT DO UPDATE command cannot affect row a second time''))"

text \<open>
  \<^verbatim>\<open>scrapeHeroAbilities\<close>, from the extracted abilities on: nothing is written for an
  empty list, and the upsert is \<open>upsert(abilitiesToInsert, { onConflict: 'name' })\<close>; on
  an error of the store the table is as before.
\<close>

definition persist_abilities :: "ability list \<Rightarrow> ability list \<Rightarrow> ability list" where
  "persist_abilities batch table =
     (if length batch = 0 then table
      else case upsert name batch table of
             Inl insertError \<Rightarrow> table
           | Inr table' \<Rightarrow> table')"

definition getHeroPageUrl :: "'r web \<Rightarrow> jstring \<Rightarrow> jstring + jstring" where
  "getHeroPageUrl w heroName =
     (case encodeURIComponent w (replace_spaces heroName) of
        Inl error \<Rightarrow> Inl error
      | Inr encodedName \<Rightarrow> Inr (js ''https://marvelrivals.fandom.com/wiki/'' @ encodedName))"

text \<open>One hero (\<open>id\<close>, \<open>name\<close>) of the loop: the body of the inner \<open>try\<close>.\<close>

definition hero_step :: "'r web \<Rightarrow> jstring \<times> jstring \<Rightarrow> jstring \<Rightarrow> ability list \<Rightarrow> ability list" where
  "hero_step w hero heroUrl table =
     (if canScrape w heroUrl (js ''*'') \<noteq> Some True then table
      else case axios_get w heroUrl of
             Inl heroError \<Rightarrow> table
           | Inr heroPageData \<Rightarrow>
               persist_abilities (extractAbilities (load w heroPageData) (fst hero)) table)"

text \<open>The loop; an error thrown outside the inner \<open>try\<close> ends the pass.\<close>

fun hero_loop :: "'r web \<Rightarrow> (jstring \<times> jstring) list \<Rightarrow> ability list \<Rightarrow> ability list" where
  "hero_loop w [] table = table"
| "hero_loop w (hero # heroes) table =
     (case getHeroPageUrl w (snd hero) of
        Inl error \<Rightarrow> table
      | Inr heroUrl \<Rightarrow> hero_loop w heroes (hero_step w hero heroUrl table))"

definition scrapeHeroAbilities ::
  "'r web \<Rightarrow> jstring + (jstring \<times> jstring) list \<Rightarrow> ability list \<Rightarrow> ability list" where
  "scrapeHeroAbilities w fetched table =
     (case fetched of
        Inl fetchError \<Rightarrow> table
      | Inr heroes \<Rightarrow> if length heroes = 0 then table else hero_loop w heroes table)"

section \<open>The properties, in the words of the specification\<close>

text \<open>
  The rows of the current format. A start row has exactly three \<open>td\<close> elements; a
  continuation row has one, with \<open>colspan="3"\<close>.
\<close>

definition cells :: "node \<Rightarrow> node list" where
  "cells tr = find_in [[Tag (js ''td'')]] tr"

definition is_start_row :: "node \<Rightarrow> bool" where
  "is_start_row tr \<longleftrightarrow> length (cells tr) = 3"

definition is_continuation_row :: "node \<Rightarrow> bool" where
  "is_continuation_row tr \<longleftrightarrow>
     length (cells tr) = 1 \<and> sel_attr (js ''colspan'') (cells tr) = Some (js ''3'')"

text \<open>The key/value pairs read from a continuation row, and its description.\<close>

definition row_pairs :: "node \<Rightarrow> (jstring \<times> jstring) list" where
  "row_pairs tr = List.map_filter bold_stat (find_with_next [Tag (js ''b'')] (childNodes (hd (cells tr))))"

definition row_description :: "node \<Rightarrow> jstring" where
  "row_description tr =
     trim (sel_text (find_in [[Tag (js ''small'')], [Tag (js ''i'')]] (hd (cells tr))))"

text \<open>The stats object that storing pairs in order builds.\<close>

definition store_pairs :: "(jstring \<times> jstring) list \<Rightarrow> stats_object \<Rightarrow> stats_object" where
  "store_pairs kvs obj = fold (\<lambda>kv ob. set_prop ob (fst kv) (snd kv)) kvs obj"

text \<open>What a continuation row does to an ability.\<close>

definition continue_with :: "node \<Rightarrow> ability \<Rightarrow> ability" where
  "continue_with tr a =
     a\<lparr>description := (if row_description tr \<noteq> [] then row_description tr else description a),
       stats := store_pairs (row_pairs tr) (stats a)\<rparr>"

text \<open>The ability a start row opens.\<close>

definition start_ability :: "jstring \<Rightarrow> node \<Rightarrow> ability" where
  "start_ability heroId tr =
     \<lparr>name = capitalizeWords (trim (text_of (last (cells tr)))),
      type = Str (start_type (hd (cells tr))),
      description = [], stats = Map.empty, hero_id = heroId\<rparr>"

text \<open>
  For each start row, in order, the rows that follow it and precede the next start
  row.
\<close>

fun segments :: "node list \<Rightarrow> node list list" where
  "segments [] = []"
| "segments (tr # rows) =
     (if is_start_row tr then takeWhile (\<lambda>r. \<not> is_start_row r) rows # segments rows
      else segments rows)"

definition segment_pairs :: "node list \<Rightarrow> (jstring \<times> jstring) list" where
  "segment_pairs seg = concat (map row_pairs (filter is_continuation_row seg))"

text \<open>
  The pairs of a continuation row, read once more in the words of the specification.
  A bold element whose trimmed text contains \<open>" - "\<close> gives the text before the first
  \<open>" - "\<close> as label and the trimmed text after it as value; any other bold element
  gives its trimmed text, without a colon at its end, as label and the trimmed text of
  the node that follows it as value. The key is the label lower-cased, with an
  underscore for every space and without a \<open>_-\<close> at its end. A pair counts when its
  key and its value are both non-empty.
\<close>

fun split_sep :: "jstring \<Rightarrow> (jstring \<times> jstring) option" where
  "split_sep (a # b # c # s) =
     (if a = 0x20 \<and> b = 0x2D \<and> c = 0x20 then Some ([], s)
      else map_option (\<lambda>p. (a # fst p, snd p)) (split_sep (b # c # s)))"
| "split_sep s = None"

definition spec_key :: "jstring \<Rightarrow> jstring" where
  "spec_key label =
     (let k = map (\<lambda>c. if c = 0x20 then 0x5F else lower1 c) label in
      case rev k of
        a # b # r \<Rightarrow> if a = 0x2D \<and> b = 0x5F then rev r else k
      | _ \<Rightarrow> k)"

definition without_colon :: "jstring \<Rightarrow> jstring" where
  "without_colon s = (case rev s of c # r \<Rightarrow> if c = 0x3A then rev r else s | [] \<Rightarrow> s)"

definition spec_pair :: "node \<times> node option \<Rightarrow> jstring \<times> jstring" where
  "spec_pair b =
     (let t = trim (text_of (fst b)) in
      case split_sep t of
        Some (label, v) \<Rightarrow> (spec_key label, trim v)
      | None \<Rightarrow>
          (spec_key (without_colon t),
           case snd b of None \<Rightarrow> [] | Some sibling \<Rightarrow> trim (text_of sibling)))"

definition spec_row_pairs :: "node \<Rightarrow> (jstring \<times> jstring) list" where
  "spec_row_pairs tr =
     filter (\<lambda>kv. fst kv \<noteq> [] \<and> snd kv \<noteq> [])
       (map spec_pair (find_with_next [Tag (js ''b'')] (childNodes (hd (cells tr)))))"

definition spec_segment_pairs :: "node list \<Rightarrow> (jstring \<times> jstring) list" where
  "spec_segment_pairs seg = concat (map spec_row_pairs (filter is_continuation_row seg))"

text \<open>
  The row loop seen from outside: what one row does to the list of abilities that the
  loop returns, and the abilities read off segment by segment.
\<close>

definition ability_step :: "jstring \<Rightarrow> node \<Rightarrow> ability list \<Rightarrow> ability list" where
  "ability_step heroId tr out =
     (if is_start_row tr then out @ [start_ability heroId tr]
      else if is_continuation_row tr \<and> out \<noteq> [] then butlast out @ [continue_with tr (last out)]
      else out)"

definition continue_all :: "node list \<Rightarrow> ability \<Rightarrow> ability" where
  "continue_all seg a = fold continue_with (filter is_continuation_row seg) a"

fun by_segments :: "jstring \<Rightarrow> node list \<Rightarrow> ability list" where
  "by_segments heroId [] = []"
| "by_segments heroId (tr # rows) =
     (if is_start_row tr
      then continue_all (takeWhile (\<lambda>r. \<not> is_start_row r) rows) (start_ability heroId tr)
             # by_segments heroId rows
      else by_segments heroId rows)"

text \<open>
  The states the loop can be in: every pushed ability has its own stats object, and
  \<open>currentAbility\<close> is unset only while nothing was pushed, else it shares the stats
  object of the last pushed ability.
\<close>

definition well_formed :: "extract_state \<Rightarrow> bool" where
  "well_formed st \<longleftrightarrow>
     length (heap st) = length (abilitiesToInsert st) \<and>
     map stats (abilitiesToInsert st) = [0..<length (abilitiesToInsert st)] \<and>
     (case currentAbility st of
        None \<Rightarrow> abilitiesToInsert st = []
      | Some cur \<Rightarrow> abilitiesToInsert st \<noteq> [] \<and> stats cur = length (abilitiesToInsert st) - 1)"

text \<open>
  Title case, word by word: the pieces between single spaces, each lower-cased and
  its first code unit then upper-cased.
\<close>

definition title_word :: "jstring \<Rightarrow> jstring" where
  "title_word w = toUpperCase (take 1 (toLowerCase w)) @ drop 1 (toLowerCase w)"

definition title_case :: "jstring \<Rightarrow> jstring" where
  "title_case s = join (js '' '') (map title_word (split_space s))"

text \<open>
  The type of a start row as the specification words it: a mouse button when the cell
  contains an image whose label (title, else alt) names one, the cell's trimmed
  upper-cased text otherwise.
\<close>

definition img_label :: "node \<Rightarrow> jstring option" where
  "img_label img =
     (if truthy (attr (js ''title'') img) then attr (js ''title'') img else attr (js ''alt'') img)"

definition spec_start_type :: "node \<Rightarrow> jstring" where
  "spec_start_type typeCell =
     (let labels = map img_label (find_in [[Tag (js ''img'')]] typeCell) in
      if Some (js ''Left mouse button'') \<in> set labels then js ''Left Mouse Button''
      else if Some (js ''Right mouse button'') \<in> set labels then js ''Right Mouse Button''
      else toUpperCase (trim (text_of typeCell)))"

text \<open>A first cell that gives no type: an image that names no mouse button, or no image and no text.\<close>

definition type_missing :: "node \<Rightarrow> bool" where
  "type_missing typeCell \<longleftrightarrow>
     (case find_in [[Tag (js ''img'')]] typeCell of
        [] \<Rightarrow> trim (text_of typeCell) = []
      | img # _ \<Rightarrow> img_label img \<noteq> Some (js ''Left mouse button'') \<and>
                   img_label img \<noteq> Some (js ''Right mouse button''))"

text \<open>
  The name and the type a start row gives: the last cell's trimmed text in title case;
  the mouse button that the first image of the first cell names, nothing when it
  names none, and the cell's trimmed upper-cased text when the cell has no image.
\<close>

definition row_name :: "node \<Rightarrow> jstring" where
  "row_name tr = title_case (trim (text_of (last (cells tr))))"

definition row_type :: "node \<Rightarrow> jsval" where
  "row_type tr =
     Str (case find_in [[Tag (js ''img'')]] (hd (cells tr)) of
            [] \<Rightarrow> toUpperCase (trim (text_of (hd (cells tr))))
          | img # _ \<Rightarrow>
              if img_label img = Some (js ''Left mouse button'') then js ''Left Mouse Button''
              else if img_label img = Some (js ''Right mouse button'') then js ''Right Mouse Button''
              else [])"

text \<open>
  The lore as the specification words it: the trimmed texts of the paragraphs before
  the marker, separated by blank lines, trimmed; and with the empty ones left out.
\<close>

definition paragraph_texts :: "node \<Rightarrow> jstring list" where
  "paragraph_texts blockquote =
     map (\<lambda>p. trim (text_of p)) (butlast (find_in [[Tag (js ''p'')]] blockquote))"

definition has_marker :: "node \<Rightarrow> bool" where
  "has_marker blockquote \<longleftrightarrow>
     (case find_in [[Tag (js ''p'')]] blockquote of
        [] \<Rightarrow> False
      | p # ps \<Rightarrow> trim (text_of (last (p # ps))) = biography_marker)"

definition non_empty :: "jstring \<Rightarrow> jstring option" where
  "non_empty s = (if s = [] then None else Some s)"

definition spec_lore :: "document \<Rightarrow> jstring option" where
  "spec_lore page =
     (case filter has_marker (filter lore_candidate (select [[Tag (js ''blockquote'')]] page)) of
        [] \<Rightarrow> None
      | blockquote # _ \<Rightarrow> non_empty (trim (join blank_line (paragraph_texts blockquote))))"

definition lore_of :: "document \<Rightarrow> jstring option" where
  "lore_of page =
     (case filter has_marker (filter lore_candidate (select [[Tag (js ''blockquote'')]] page)) of
        [] \<Rightarrow> None
      | blockquote # _ \<Rightarrow>
          non_empty (join blank_line (filter (\<lambda>t. t \<noteq> []) (paragraph_texts blockquote))))"

text \<open>A string with no white space at either end.\<close>

definition trimmed :: "jstring \<Rightarrow> bool" where
  "trimmed s \<longleftrightarrow> s = [] \<or> (\<not> is_space (hd s) \<and> \<not> is_space (last s))"

text \<open>The full stars of a page: the images in a difficulty panel whose \<open>alt\<close> is \<open>StarFull\<close>.\<close>

definition full_stars :: "document \<Rightarrow> nat" where
  "full_stars page =
     length (filter (\<lambda>img. attr (js ''alt'') img = Some (js ''StarFull''))
       (select [difficulty_panel, [Tag (js ''img'')]] page))"

text \<open>Small pages for the examples.\<close>

definition el :: "string \<Rightarrow> (string \<times> string) list \<Rightarrow> node list \<Rightarrow> node" where
  "el t a cs = Element (js t) (map (\<lambda>kv. (js (fst kv), js (snd kv))) a) cs"

definition tx :: "string \<Rightarrow> node" where
  "tx s = Text (js s)"

text \<open>
  A site for the examples: its robots.txt is fetched with the given outcome and its
  policy gives the given answer.
\<close>

definition example_web :: "jstring + jstring \<Rightarrow> bool option \<Rightarrow> unit web" where
  "example_web fetched answer =
     \<lparr>new_URL = (\<lambda>path base. Inr (js ''https://h'' @ path)),
      axios_get = (\<lambda>url. fetched),
      robotsParser = (\<lambda>url data. Inr ()),
      isAllowed = (\<lambda>robots url userAgent. Inr answer),
      encodeURIComponent = (\<lambda>s. Inr s),
      load = (\<lambda>data. [])\<rparr>"

text \<open>A skill table with the given rows, and the rows of the specification's example.\<close>

definition example_table :: "node list \<Rightarrow> node" where
  "example_table rows = el ''table'' [(''class'', ''wikitable skill-table'')] [el ''tbody'' [] rows]"

definition web_strike_start :: node where
  "web_strike_start =
     el ''tr'' []
       [el ''td'' [] [el ''img'' [(''title'', ''Left mouse button'')] []],
        el ''td'' [] [],
        el ''td'' [] [tx ''web STRIKE'']]"

definition web_strike_more :: node where
  "web_strike_more =
     el ''tr'' []
       [el ''td'' [(''colspan'', ''3'')]
          [el ''small'' [] [el ''i'' [] [tx ''Hits.'']], el ''b'' [] [tx ''Cooldown - 6s'']]]"

text \<open>
  A continuation row with two bold elements: a label followed by its value, and the
  pair \<open>__proto__ - x\<close>.
\<close>

definition proto_row :: node where
  "proto_row =
     el ''tr'' []
       [el ''td'' [(''colspan'', ''3'')]
          [el ''b'' [] [tx ''Special Effect -''], tx '' Slow '',
           el ''b'' [] [tx ''__proto__ - x'']]]"

text \<open>A first cell with an image that names no mouse button, beside the text \<open>q\<close>.\<close>

definition ultimate_cell :: node where
  "ultimate_cell = el ''td'' [] [el ''img'' [(''alt'', ''Ultimate'')] [], tx ''q'']"

text \<open>A legacy page with one info panel, titled \<open>dash\<close>, whose key binding is blank.\<close>

definition legacy_page :: document where
  "legacy_page =
     [el ''table'' [(''class'', ''fandom-table'')]
        [el ''tbody'' []
           [el ''tr'' []
              [el ''td'' []
                 [el ''aside'' []
                    [el ''h2'' [(''class'', ''pi-title'')] [tx ''dash''],
                     el ''td'' [(''data-source'', ''keybind'')] [tx '' '']]]]]]]"

text \<open>
  An ability named \<open>Dash\<close>, and a site that allows every fetch and whose every hero
  page lists that one ability.
\<close>

definition dash :: "jstring \<Rightarrow> ability" where
  "dash heroId = \<lparr>name = js ''Dash'', type = Str (js ''E''), description = [], stats = Map.empty, hero_id = heroId\<rparr>"

definition dash_site :: "unit web" where
  "dash_site =
     \<lparr>new_URL = (\<lambda>path base. Inr (js ''https://h'' @ path)),
      axios_get = (\<lambda>url. Inr url),
      robotsParser = (\<lambda>url data. Inr ()),
      isAllowed = (\<lambda>robots url userAgent. Inr (Some True)),
      encodeURIComponent = (\<lambda>s. Inr s),
      load = (\<lambda>data.
        [example_table
           [el ''tr'' [] [el ''td'' [] [tx ''e''], el ''td'' [] [], el ''td'' [] [tx ''dash'']]]])\<rparr>"

section \<open>Strings: splitting, joining and case\<close>

lemma js_space: "js '' '' = [0x20]"
  by (simp add: js_def)

lemma split_space_nonempty: "split_space s \<noteq> []"
  by (induction s) (auto split: list.splits)

lemma join_split_space: "join [0x20] (split_space s) = s"
proof (induction s)
  case Nil
  show ?case by simp
next
  case (Cons c cs)
  show ?case
  proof (cases "c = 0x20")
    case True
    with Cons split_space_nonempty [of cs] show ?thesis
      by (cases "split_space cs") auto
  next
    case False
    with Cons split_space_nonempty [of cs] show ?thesis
      by (cases "split_space cs"; cases "tl (split_space cs)") auto
  qed
qed

lemma lower1_space: "lower1 c = 0x20 \<longleftrightarrow> c = 0x20"
  by (auto simp: lower1_def)

lemma split_space_lower: "split_space (toLowerCase s) = map toLowerCase (split_space s)"
proof (induction s)
  case Nil
  show ?case by (simp add: toLowerCase_def)
next
  case (Cons c cs)
  from Cons have IH: "split_space (map lower1 cs) = map (map lower1) (split_space cs)"
    by (simp add: toLowerCase_def)
  show ?case
    using split_space_nonempty [of cs]
    by (cases "split_space cs") (auto simp: toLowerCase_def lower1_space IH)
qed

lemma toLowerCase_join_gen:
  "toLowerCase (join sep ws) = join (toLowerCase sep) (map toLowerCase ws)"
  by (induction sep ws rule: join.induct) (auto simp: toLowerCase_def)

lemma toLowerCase_join: "toLowerCase (join [0x20] ws) = join [0x20] (map toLowerCase ws)"
  by (simp add: toLowerCase_join_gen) (simp add: toLowerCase_def lower1_def)

lemma set_split_space: "w \<in> set (split_space s) \<Longrightarrow> set w \<subseteq> set s"
proof (induction s arbitrary: w)
  case Nil
  then show ?case by simp
next
  case (Cons c cs)
  then show ?case
    using split_space_nonempty [of cs]
    by (cases "split_space cs") (fastforce split: if_splits)+
qed

lemma lower_upper1_ascii: "c < 0x80 \<Longrightarrow> map lower1 (upper1 c) = [lower1 c]"
  by (auto simp: lower1_def upper1_def)

lemma toLowerCase_capitalizeWord:
  "\<forall>c\<in>set w. c < 0x80 \<Longrightarrow> toLowerCase (capitalizeWord w) = toLowerCase w"
  by (cases w) (auto simp: toLowerCase_def capitalizeWord_def toUpperCase_def lower_upper1_ascii)

lemma toLowerCase_idem_ascii:
  "\<forall>c\<in>set s. c < 0x80 \<Longrightarrow> toLowerCase (toLowerCase s) = toLowerCase s"
  by (induction s) (auto simp: toLowerCase_def lower1_def)

lemma toLowerCase_ascii:
  "\<forall>c\<in>set s. c < 0x80 \<Longrightarrow> \<forall>c\<in>set (toLowerCase s). c < 0x80"
  by (auto simp: toLowerCase_def lower1_def)

lemma toLowerCase_words:
  assumes "\<forall>c\<in>set t. c < 0x80"
  shows "toLowerCase (join [0x20] (map capitalizeWord (split_space t))) = toLowerCase t"
proof -
  have "map toLowerCase (map capitalizeWord (split_space t)) = map toLowerCase (split_space t)"
    using assms set_split_space [of _ t] by (auto intro!: toLowerCase_capitalizeWord)
  then have "toLowerCase (join [0x20] (map capitalizeWord (split_space t)))
      = join [0x20] (map toLowerCase (split_space t))"
    by (simp only: toLowerCase_join)
  also have "\<dots> = toLowerCase (join [0x20] (split_space t))"
    by (simp only: toLowerCase_join)
  finally show ?thesis by (simp only: join_split_space)
qed

lemmas string_eval =
  js_def capitalizeWords_def capitalizeWord_def toLowerCase_def toUpperCase_def
  lower1_def upper1_def trim_def is_space_def

section \<open>Title-casing twice\<close>

text \<open>
  Claim C10, as stated: applying \<^verbatim>\<open>capitalizeWords\<close> twice gives the same as applying
  it once, for every string. It fails on the sharp s: its upper case is the two
  letters \<open>SS\<close>, and the second pass lower-cases the second of them, so the one-letter
  string \<open>[0xDF]\<close> goes to \<open>SS\<close> and then to \<open>Ss\<close>.
\<close>

theorem capitalizeWords_not_idempotent:
  "capitalizeWords (capitalizeWords [0xDF]) \<noteq> capitalizeWords [0xDF]"
  by (simp add: string_eval)

text \<open>
  Claim C10, amended: on a string of ASCII characters (code units below \<open>0x80\<close>),
  applying \<^verbatim>\<open>capitalizeWords\<close> twice gives the same as applying it once.
\<close>

theorem capitalizeWords_idempotent_ascii:
  assumes "\<forall>c\<in>set s. c < 0x80"
  shows "capitalizeWords (capitalizeWords s) = capitalizeWords s"
proof -
  let ?t = "toLowerCase s"
  have t: "\<forall>c\<in>set ?t. c < 0x80"
    using assms by (rule toLowerCase_ascii)
  have "toLowerCase (capitalizeWords s) = toLowerCase ?t"
    unfolding capitalizeWords_def js_space using t by (rule toLowerCase_words)
  also have "\<dots> = ?t"
    using assms by (rule toLowerCase_idem_ascii)
  finally show ?thesis
    by (simp add: capitalizeWords_def)
qed

theorem capitalizeWords_idempotent_ascii_witness:
  "list_all (\<lambda>c. c < 0x80) (js ''web STRIKE'') \<and>
   capitalizeWords (js ''web STRIKE'') = js ''Web Strike'' \<and>
   capitalizeWords (capitalizeWords (js ''web STRIKE'')) = js ''Web Strike''"
proof -
  have h: "\<forall>c\<in>set (js ''web STRIKE''). c < 0x80"
    by (simp add: js_def)
  have v: "capitalizeWords (js ''web STRIKE'') = js ''Web Strike''"
    by (simp add: string_eval)
  from h v capitalizeWords_idempotent_ascii [OF h] show ?thesis
    by (simp add: list_all_iff)
qed

section \<open>The legacy type mapping\<close>

lemma mapAbilityType_table:
  "mapAbilityType (js ''Primary 1'') = Str (js ''Left Mouse Button'')"
  "mapAbilityType (js ''Primary 2'') = Str (js ''Right Mouse Button'')"
  "mapAbilityType (js ''Primary'') = Str (js ''Left Mouse Button'')"
  "mapAbilityType (js ''Q'') = Str (js ''Q'')"
  "mapAbilityType (js ''E'') = Str (js ''E'')"
  "mapAbilityType (js ''F'') = Str (js ''F'')"
  "mapAbilityType (js ''Passive'') = Str (js ''Passive'')"
  "mapAbilityType (js ''Left Shift'') = Str (js ''Left Shift'')"
  by (simp_all add: mapAbilityType_def get_prop_def typeMap_def js_def)

lemma mapAbilityType_passthrough:
  "map_of typeMap rawType = None \<Longrightarrow> rawType \<notin> set object_prototype_members \<Longrightarrow>
   mapAbilityType rawType = Str rawType"
  by (simp add: mapAbilityType_def get_prop_def)

lemma mapAbilityType_empty: "mapAbilityType rawType = Str [] \<longleftrightarrow> rawType = []"
  by (auto simp: mapAbilityType_def get_prop_def typeMap_def object_prototype_members_def js_def
      split: option.splits if_splits)

text \<open>
  Claim C6: every token of the table maps to its slot, and every token that is not in
  the table comes back unchanged. The table entries are right (\<open>mapAbilityType_table\<close>),
  and a token outside the table comes back unchanged unless it names a member of
  \<open>Object.prototype\<close> (\<open>mapAbilityType_passthrough\<close>). For such a token the lookup
  \<open>typeMap[rawType]\<close> finds the inherited member, which is truthy, and the function
  returns it instead of the token: \<open>constructor\<close> is not in the table and does not come
  back as the string \<open>constructor\<close>.
\<close>

theorem mapAbilityType_inherited_member:
  "map_of typeMap (js ''constructor'') = None \<and>
   mapAbilityType (js ''constructor'') = Inherited (js ''constructor'') \<and>
   mapAbilityType (js ''constructor'') \<noteq> Str (js ''constructor'')"
  by (simp add: mapAbilityType_def get_prop_def typeMap_def object_prototype_members_def js_def)

section \<open>The fetch-permission check fails open\<close>

text \<open>
  Claim C3: when building the robots.txt URL, fetching it, parsing it or asking the
  parsed policy throws, \<^verbatim>\<open>canScrape\<close> returns \<open>true\<close>; no error leaves it (its result is
  a value in every case); and a result other than \<open>true\<close> is the answer of a policy
  that was fetched and parsed.
\<close>

theorem canScrape_fails_open:
  "(new_URL w (js ''/robots.txt'') url = Inl e \<longrightarrow> canScrape w url userAgent = Some True) \<and>
   (new_URL w (js ''/robots.txt'') url = Inr robotsUrl \<and> axios_get w robotsUrl = Inl e
      \<longrightarrow> canScrape w url userAgent = Some True) \<and>
   (new_URL w (js ''/robots.txt'') url = Inr robotsUrl \<and> axios_get w robotsUrl = Inr data \<and>
    robotsParser w robotsUrl data = Inl e \<longrightarrow> canScrape w url userAgent = Some True) \<and>
   (new_URL w (js ''/robots.txt'') url = Inr robotsUrl \<and> axios_get w robotsUrl = Inr data \<and>
    robotsParser w robotsUrl data = Inr robots \<and> isAllowed w robots url userAgent = Inl e
      \<longrightarrow> canScrape w url userAgent = Some True) \<and>
   (canScrape w url userAgent \<noteq> Some True \<longrightarrow>
      (\<exists>robotsUrl data robots.
         new_URL w (js ''/robots.txt'') url = Inr robotsUrl \<and>
         axios_get w robotsUrl = Inr data \<and>
         robotsParser w robotsUrl data = Inr robots \<and>
         isAllowed w robots url userAgent = Inr (canScrape w url userAgent)))"
  by (auto simp: canScrape_def split: sum.splits)

theorem canScrape_fails_open_witness:
  "axios_get (example_web (Inl (js ''timeout'')) (Some False)) (js ''https://h/robots.txt'')
     = Inl (js ''timeout'') \<and>
   canScrape (example_web (Inl (js ''timeout'')) (Some False)) (js ''https://h/wiki/A'') (js ''*'')
     = Some True \<and>
   canScrape (example_web (Inr (js ''Disallow: /'')) (Some False)) (js ''https://h/wiki/A'') (js ''*'')
     = Some False"
proof -
  let ?w = "example_web (Inl (js ''timeout'')) (Some False)"
  have u: "new_URL ?w (js ''/robots.txt'') (js ''https://h/wiki/A'') = Inr (js ''https://h/robots.txt'')"
    by (simp add: example_web_def js_def)
  have g: "axios_get ?w (js ''https://h/robots.txt'') = Inl (js ''timeout'')"
    by (simp add: example_web_def)
  have d: "canScrape (example_web (Inr (js ''Disallow: /'')) (Some False))
             (js ''https://h/wiki/A'') (js ''*'') = Some False"
    by (simp add: canScrape_def example_web_def)
  from u g d
    canScrape_fails_open [of ?w "js ''https://h/wiki/A''" "js ''timeout''" "js ''*''"
      "js ''https://h/robots.txt''"]
  show ?thesis by simp
qed

section \<open>The difficulty is between 1 and 5\<close>

lemma select_no_head: "select [c] ns = [] \<Longrightarrow> select (c # chain) ns = []"
  by (induction "c # chain" ns rule: select.induct) (auto split: if_splits)

lemma or_empty_alt: "or_empty v = js ''StarFull'' \<longleftrightarrow> v = Some (js ''StarFull'')"
  by (cases v) (auto simp: or_empty_def js_def)

lemma fold_count_star:
  "fold count_star imgs n =
     n + length (filter (\<lambda>img. attr (js ''alt'') img = Some (js ''StarFull'')) imgs)"
  by (induction imgs arbitrary: n) (simp_all add: count_star_def or_empty_alt)

lemmas dom_eval =
  el_def tx_def js_def matches_def enter_def find_in_def sel_text_def sel_attr_def is_space_def

text \<open>
  Claim C7: the difficulty is the number of images in the difficulty panel whose label
  (the \<open>alt\<close> attribute) is exactly the full-star marker \<open>StarFull\<close> when that number is
  between 1 and 5, and \<open>null\<close> otherwise; so it is never outside 1..5, and a count out
  of range is not clamped.
\<close>

theorem extractDifficulty_range:
  "extractDifficulty page =
     (if 1 \<le> full_stars page \<and> full_stars page \<le> 5 then Some (full_stars page) else None) \<and>
   (case extractDifficulty page of None \<Rightarrow> True | Some d \<Rightarrow> 1 \<le> d \<and> d \<le> 5)"
proof -
  have eq: "extractDifficulty page =
     (if 1 \<le> full_stars page \<and> full_stars page \<le> 5 then Some (full_stars page) else None)"
  proof (cases "select [difficulty_panel] page = []")
    case True
    then have "select [difficulty_panel, [Tag (js ''img'')]] page = []"
      by (rule select_no_head)
    with True show ?thesis
      by (simp add: extractDifficulty_def full_stars_def)
  next
    case False
    then show ?thesis
      by (auto simp: extractDifficulty_def full_stars_def fold_count_star Let_def Suc_le_eq)
  qed
  then show ?thesis by simp
qed

theorem extractDifficulty_range_witness:
  "extractDifficulty
     [el ''div'' [(''data-source'', ''difficulty'')]
        [el ''img'' [(''alt'', ''StarFull'')] [], el ''img'' [(''alt'', ''StarFull'')] [],
         el ''img'' [(''alt'', ''StarFull'')] [], el ''img'' [(''alt'', ''StarFull'')] [],
         el ''img'' [(''alt'', ''StarEmpty'')] []]] = Some 4"
proof -
  let ?page = "[el ''div'' [(''data-source'', ''difficulty'')]
        [el ''img'' [(''alt'', ''StarFull'')] [], el ''img'' [(''alt'', ''StarFull'')] [],
         el ''img'' [(''alt'', ''StarFull'')] [], el ''img'' [(''alt'', ''StarFull'')] [],
         el ''img'' [(''alt'', ''StarEmpty'')] []]]"
  have "full_stars ?page = 4"
    by (simp add: full_stars_def difficulty_panel_def dom_eval)
  with extractDifficulty_range [of ?page] show ?thesis by simp
qed

section \<open>The lore text\<close>

lemma last_dropWhile_nonempty:
  "dropWhile P xs \<noteq> [] \<Longrightarrow> last (dropWhile P xs) = last xs"
  by (metis dropWhile_eq_Nil_conv dropWhile_last)

lemma trimmed_trim: "trimmed (trim t)"
proof -
  let ?u = "dropWhile is_space t"
  let ?v = "dropWhile is_space (rev ?u)"
  show ?thesis
  proof (cases "?v = []")
    case True
    then show ?thesis by (simp add: trimmed_def trim_def)
  next
    case False
    then have hv: "\<not> is_space (hd ?v)" by (rule hd_dropWhile)
    from False have u: "?u \<noteq> []"
      by (metis dropWhile.simps(1) rev.simps(1))
    then have hu: "\<not> is_space (hd ?u)" by (rule hd_dropWhile)
    from False have "last ?v = last (rev ?u)" by (rule last_dropWhile_nonempty)
    also from u have "\<dots> = hd ?u" by (simp add: last_rev)
    finally have lv: "\<not> is_space (last ?v)" using hu by simp
    from False hv lv show ?thesis
      by (simp add: trimmed_def trim_def hd_rev last_rev)
  qed
qed

lemma trim_trimmed: "trimmed s \<Longrightarrow> trim s = s"
proof (cases "s = []")
  case True
  then show ?thesis by (simp add: trim_def)
next
  case False
  assume "trimmed s"
  with False have h: "\<not> is_space (hd s)" and l: "\<not> is_space (last s)"
    by (auto simp: trimmed_def)
  from False h have a: "dropWhile is_space s = s"
    by (simp add: dropWhile_eq_self_iff)
  from False l have "dropWhile is_space (rev s) = rev s"
    by (simp add: dropWhile_eq_self_iff hd_rev)
  with a show ?thesis by (simp add: trim_def)
qed

lemma trim_Nil [simp]: "trim [] = []"
  by (simp add: trim_def)

lemma trim_spaces_left: "\<forall>c\<in>set ws. is_space c \<Longrightarrow> trim (ws @ s) = trim s"
  by (simp add: trim_def)

lemma trim_spaces_right: "\<forall>c\<in>set ws. is_space c \<Longrightarrow> trim (s @ ws) = trim s"
proof (cases "\<forall>c\<in>set s. is_space c")
  case True
  assume ws: "\<forall>c\<in>set ws. is_space c"
  from True have a: "dropWhile is_space s = []" by simp
  from True ws have b: "dropWhile is_space (s @ ws) = []" by auto
  show ?thesis unfolding trim_def a b ..
next
  case False
  assume ws: "\<forall>c\<in>set ws. is_space c"
  from False have a: "dropWhile is_space (s @ ws) = dropWhile is_space s @ ws"
    by (auto simp: dropWhile_append)
  from ws have b: "dropWhile is_space (rev ws @ rev (dropWhile is_space s))
      = dropWhile is_space (rev (dropWhile is_space s))"
    by (intro dropWhile_append2) simp
  show ?thesis by (simp add: trim_def a b)
qed

lemma blank_line_spaces: "\<forall>c\<in>set blank_line. is_space c"
  by (simp add: blank_line_def is_space_def)

lemma fold_add_paragraph:
  "fold add_paragraph ps acc =
     acc @ concat (map (\<lambda>t. t @ blank_line) (filter (\<lambda>t. t \<noteq> []) (map (\<lambda>p. trim (text_of p)) ps)))"
  by (induction ps arbitrary: acc) (simp_all add: add_paragraph_def Let_def)

lemma concat_blank_join:
  "ts \<noteq> [] \<Longrightarrow> concat (map (\<lambda>t. t @ blank_line) ts) = join blank_line ts @ blank_line"
  by (induction blank_line ts rule: join.induct) simp_all

lemma trimmed_join:
  "\<forall>t\<in>set ts. t \<noteq> [] \<and> trimmed t \<Longrightarrow> trimmed (join blank_line ts)"
proof (induction blank_line ts rule: join.induct)
  case 1
  then show ?case by (simp add: trimmed_def)
next
  case (2 w)
  then show ?case by simp
next
  case (3 w v ws)
  then have j: "trimmed (join blank_line (v # ws))" by simp
  have ne: "join blank_line (v # ws) \<noteq> []"
    using 3 by (cases ws) auto
  from 3 have w: "w \<noteq> []" "trimmed w" by auto
  from w j ne show ?case
    by (auto simp: trimmed_def blank_line_def)
qed

lemma trim_concat_blank:
  assumes "\<forall>t\<in>set ts. t \<noteq> [] \<and> trimmed t"
  shows "trim (concat (map (\<lambda>t. t @ blank_line) ts)) = join blank_line ts"
proof (cases "ts = []")
  case True
  then show ?thesis by simp
next
  case False
  then have "trim (concat (map (\<lambda>t. t @ blank_line) ts)) = trim (join blank_line ts @ blank_line)"
    by (simp add: concat_blank_join)
  also have "\<dots> = trim (join blank_line ts)"
    using blank_line_spaces by (rule trim_spaces_right)
  also have "\<dots> = join blank_line ts"
    using assms by (intro trim_trimmed trimmed_join)
  finally show ?thesis .
qed

lemma find_biography_eq:
  "find_biography bs =
     (case filter has_marker bs of
        [] \<Rightarrow> ([], False)
      | b # _ \<Rightarrow> (fold add_paragraph (butlast (find_in [[Tag (js ''p'')]] b)) [], True))"
proof (induction bs)
  case Nil
  show ?case by simp
next
  case (Cons b bs)
  have m: "has_marker b \<longleftrightarrow>
    trim (case find_in [[Tag (js ''p'')]] b of [] \<Rightarrow> [] | _ # _ \<Rightarrow> text_of (last (find_in [[Tag (js ''p'')]] b)))
      = biography_marker"
    by (auto simp: has_marker_def biography_marker_def split: list.splits)
  show ?case
    using Cons by (simp add: Let_def m [symmetric])
qed

lemma getHeroLoreSection_lore_of: "getHeroLoreSection page = lore_of page"
proof -
  let ?cands = "filter lore_candidate (select [[Tag (js ''blockquote'')]] page)"
  show ?thesis
  proof (cases "filter has_marker ?cands")
    case Nil
    then show ?thesis
      by (simp add: getHeroLoreSection_def lore_of_def find_biography_eq Let_def)
  next
    case (Cons b bs)
    then have ne: "?cands \<noteq> []"
      by (metis filter.simps(1) list.simps(3))
    let ?ts = "filter (\<lambda>t. t \<noteq> []) (paragraph_texts b)"
    have "\<forall>t\<in>set ?ts. t \<noteq> [] \<and> trimmed t"
      by (auto simp: paragraph_texts_def trimmed_trim)
    then have "trim (concat (map (\<lambda>t. t @ blank_line) ?ts)) = join blank_line ?ts"
      by (rule trim_concat_blank)
    with Cons ne show ?thesis
      by (simp add: getHeroLoreSection_def lore_of_def find_biography_eq Let_def
          fold_add_paragraph paragraph_texts_def non_empty_def)
  qed
qed

lemma two_paragraphs:
  assumes "trimmed a" "trimmed b"
  shows "trim (join blank_line [a, b]) = join blank_line (filter (\<lambda>t. t \<noteq> []) [a, b])"
proof -
  have tj: "trimmed (join blank_line [a, b])" if "a \<noteq> []" "b \<noteq> []"
    using trimmed_join [of "[a, b]"] assms that by simp
  show ?thesis
    using assms tj blank_line_spaces
    by (auto simp: trim_spaces_left trim_spaces_right trim_trimmed
        trim_spaces_right [of blank_line "[]", simplified])
qed

lemmas lore_eval =
  getHeroLoreSection_def spec_lore_def lore_candidate_def has_marker_def paragraph_texts_def
  add_paragraph_def truthy_def non_empty_def biography_marker_def blank_line_def
  trim_def is_space_def Let_def

text \<open>
  Claim C8, as stated: the lore is the trimmed concatenation of the trimmed texts of
  the paragraphs before the marker, separated by blank lines (\<open>spec_lore\<close>). The code
  leaves out a paragraph whose trimmed text is empty, so on a block with the paragraphs
  \<open>a\<close>, an empty one and \<open>b\<close> before the marker it returns \<open>a\<close> and \<open>b\<close> one blank
  line apart, where every paragraph's text followed by its separator gives two.
\<close>

theorem lore_empty_paragraph_skipped:
  "getHeroLoreSection
     [el ''blockquote'' []
        [el ''p'' [] [tx ''a''], el ''p'' [] [], el ''p'' [] [tx ''b''],
         el ''p'' [] [Text biography_marker]]]
     = Some (js ''a'' @ [0x0A, 0x0A] @ js ''b'') \<and>
   spec_lore
     [el ''blockquote'' []
        [el ''p'' [] [tx ''a''], el ''p'' [] [], el ''p'' [] [tx ''b''],
         el ''p'' [] [Text biography_marker]]]
     = Some (js ''a'' @ [0x0A, 0x0A, 0x0A, 0x0A] @ js ''b'')"
  by (simp add: lore_eval dom_eval)

text \<open>
  Claim C8, amended: lore extraction considers only the quotation blocks whose \<open>id\<close>
  and \<open>class\<close> are absent or empty, takes the first of them whose last paragraph's
  trimmed text is exactly the marker, and returns the non-empty trimmed texts of the
  paragraphs before it, joined by blank lines; with two paragraphs before the marker
  this is those two joined by a blank line, trimmed. No such block, no marker and an
  empty result each give \<open>null\<close>.
\<close>

theorem lore_extraction:
  "getHeroLoreSection page = lore_of page \<and>
   (case filter has_marker (filter lore_candidate (select [[Tag (js ''blockquote'')]] page)) of
      [] \<Rightarrow> True
    | b # _ \<Rightarrow>
        length (paragraph_texts b) = 2 \<longrightarrow>
        getHeroLoreSection page = non_empty (trim (join blank_line (paragraph_texts b))))"
proof -
  have two: "getHeroLoreSection page = non_empty (trim (join blank_line (paragraph_texts b)))"
    if f: "filter has_marker (filter lore_candidate (select [[Tag (js ''blockquote'')]] page)) = b # bs"
      and l: "length (paragraph_texts b) = 2" for b bs
  proof -
    from l obtain t1 t2 where ts: "paragraph_texts b = [t1, t2]"
      by (cases "paragraph_texts b"; cases "tl (paragraph_texts b)") auto
    then have "t1 \<in> set (paragraph_texts b)" "t2 \<in> set (paragraph_texts b)" by simp_all
    then have "trimmed t1" "trimmed t2"
      by (auto simp: paragraph_texts_def trimmed_trim)
    then have "trim (join blank_line [t1, t2]) = join blank_line (filter (\<lambda>t. t \<noteq> []) [t1, t2])"
      by (rule two_paragraphs)
    with f ts show ?thesis
      by (simp only: getHeroLoreSection_lore_of lore_of_def list.case)
  qed
  show ?thesis
  proof (cases "filter has_marker (filter lore_candidate (select [[Tag (js ''blockquote'')]] page))")
    case Nil
    show ?thesis
      unfolding Nil list.case using getHeroLoreSection_lore_of by blast
  next
    case (Cons b bs)
    show ?thesis
      unfolding Cons list.case using getHeroLoreSection_lore_of two [OF Cons] by blast
  qed
qed

theorem lore_extraction_witness:
  "getHeroLoreSection
     [el ''blockquote'' [(''class'', ''quote'')] [el ''p'' [] [Text biography_marker]],
      el ''blockquote'' []
        [el ''p'' [] [tx '' First. ''], el ''p'' [] [tx ''Second.''],
         el ''p'' [] [Text biography_marker]]]
     = Some (js ''First.'' @ [0x0A, 0x0A] @ js ''Second.'')"
proof -
  let ?b = "el ''blockquote'' []
        [el ''p'' [] [tx '' First. ''], el ''p'' [] [tx ''Second.''],
         el ''p'' [] [Text biography_marker]]"
  let ?page = "[el ''blockquote'' [(''class'', ''quote'')] [el ''p'' [] [Text biography_marker]], ?b]"
  have f: "filter has_marker (filter lore_candidate (select [[Tag (js ''blockquote'')]] ?page)) = [?b]"
    by (simp add: lore_eval dom_eval)
  have l: "length (paragraph_texts ?b) = 2"
    by (simp add: paragraph_texts_def dom_eval)
  have v: "non_empty (trim (join blank_line (paragraph_texts ?b)))
      = Some (js ''First.'' @ [0x0A, 0x0A] @ js ''Second.'')"
    by (simp add: lore_eval dom_eval)
  from lore_extraction [of ?page]
  have "length (paragraph_texts ?b) = 2 \<longrightarrow>
      getHeroLoreSection ?page = non_empty (trim (join blank_line (paragraph_texts ?b)))"
    unfolding f list.case by (rule conjunct2)
  with l v show ?thesis
    by (simp only:)
qed

section \<open>The row loop of the current format\<close>

lemma well_formed_initial: "well_formed initial_state"
  by (simp add: well_formed_def initial_state_def)

lemma fold_store_stat:
  "ref < length (heap st) \<Longrightarrow>
   fold (store_stat ref) bs st =
     st\<lparr>heap := (heap st)[ref := store_pairs (List.map_filter bold_stat bs) (heap st ! ref)]\<rparr>"
proof (induction bs arbitrary: st)
  case Nil
  then show ?case by (simp add: store_pairs_def List.map_filter_simps)
next
  case (Cons b bs)
  show ?case
  proof (cases "bold_stat b")
    case None
    with Cons show ?thesis
      by (simp add: store_stat_def List.map_filter_simps)
  next
    case (Some kv)
    with Cons.prems Cons.IH [of "st\<lparr>heap := (heap st)[ref := set_prop (heap st ! ref) (fst kv) (snd kv)]\<rparr>"]
    show ?thesis
      by (cases kv) (simp add: store_stat_def List.map_filter_simps store_pairs_def)
  qed
qed

lemma row_step_start:
  "is_start_row tr \<Longrightarrow>
   row_step heroId tr st =
     \<lparr>currentAbility = Some \<lparr>name = name (start_ability heroId tr), type = type (start_ability heroId tr),
          description = [], stats = length (heap st)\<rparr>,
      abilitiesToInsert = abilitiesToInsert st @
        [\<lparr>name = name (start_ability heroId tr), type = type (start_ability heroId tr),
          description = [], stats = length (heap st), hero_id = heroId\<rparr>],
      heap = heap st @ [Map.empty]\<rparr>"
  by (simp add: row_step_def is_start_row_def cells_def start_ability_def Let_def)

lemma row_step_orphan:
  "\<not> is_start_row tr \<Longrightarrow> currentAbility st = None \<Longrightarrow> row_step heroId tr st = st"
  by (simp add: row_step_def is_start_row_def cells_def Let_def)

lemma row_step_other:
  "\<not> is_start_row tr \<Longrightarrow> \<not> is_continuation_row tr \<Longrightarrow> row_step heroId tr st = st"
  by (auto simp: row_step_def is_start_row_def is_continuation_row_def cells_def Let_def
      split: option.splits)

lemma row_step_continuation:
  assumes "is_continuation_row tr" "currentAbility st = Some cur" "stats cur < length (heap st)"
  shows "row_step heroId tr st =
     (if row_description tr \<noteq> [] then set_description (row_description tr) cur st else st)
       \<lparr>heap := (heap st)[stats cur := store_pairs (row_pairs tr) (heap st ! stats cur)]\<rparr>"
proof -
  from assms(1) have c: "length (cells tr) = 1" "sel_attr (js ''colspan'') (cells tr) = Some (js ''3'')"
    by (simp_all add: is_continuation_row_def)
  let ?td = "hd (cells tr)"
  let ?st1 = "if row_description tr \<noteq> [] then set_description (row_description tr) cur st else st"
  have h1: "heap ?st1 = heap st"
    by (simp add: set_description_def Let_def)
  show ?thesis
  proof (cases "childNodes ?td = []")
    case True
    then have "row_description tr = []" "row_pairs tr = []"
      by (simp_all add: row_description_def row_pairs_def find_in_def sel_text_def List.map_filter_simps)
    with True c assms(2) show ?thesis
      by (simp add: row_step_def cells_def [symmetric] Let_def store_pairs_def)
  next
    case False
    from assms(3) h1 have r: "stats cur < length (heap ?st1)" by simp
    have "row_step heroId tr st =
        fold (store_stat (stats cur)) (find_with_next [Tag (js ''b'')] (childNodes ?td)) ?st1"
      using False c assms(2)
      by (simp add: row_step_def cells_def [symmetric] Let_def row_description_def)
    also have "\<dots> = ?st1\<lparr>heap := (heap ?st1)[stats cur := store_pairs (row_pairs tr) (heap ?st1 ! stats cur)]\<rparr>"
      unfolding row_pairs_def using r by (rule fold_store_stat)
    also have "\<dots> = ?st1\<lparr>heap := (heap st)[stats cur := store_pairs (row_pairs tr) (heap st ! stats cur)]\<rparr>"
      by (simp only: h1)
    finally show ?thesis .
  qed
qed

lemma stats_bound:
  "map stats out = [0..<n] \<Longrightarrow> a \<in> set out \<Longrightarrow> stats a < n"
proof -
  assume m: "map stats out = [0..<n]" and a: "a \<in> set out"
  from a have "stats a \<in> set (map stats out)" by simp
  with m show ?thesis by simp
qed

lemma map_deref_append:
  assumes "map stats out = [0..<length h]"
  shows "map (deref (h @ h')) out = map (deref h) out"
proof (rule map_cong)
  fix a assume "a \<in> set out"
  with assms have "stats a < length h" by (rule stats_bound)
  then show "deref (h @ h') a = deref h a"
    by (simp add: deref_def nth_append)
qed simp

lemma result_start:
  assumes "well_formed st" "is_start_row tr"
  shows "well_formed (row_step heroId tr st)"
    and "result_of (row_step heroId tr st) = result_of st @ [start_ability heroId tr]"
proof -
  from assms(1) have l: "length (heap st) = length (abilitiesToInsert st)"
    and m: "map stats (abilitiesToInsert st) = [0..<length (heap st)]"
    by (simp_all add: well_formed_def)
  from l m show "well_formed (row_step heroId tr st)"
    by (simp add: row_step_start [OF assms(2)] well_formed_def)
  from m have "map (deref (heap st @ [Map.empty])) (abilitiesToInsert st)
      = map (deref (heap st)) (abilitiesToInsert st)"
    by (rule map_deref_append)
  then show "result_of (row_step heroId tr st) = result_of st @ [start_ability heroId tr]"
    by (simp add: row_step_start [OF assms(2)] result_of_def) (simp add: deref_def start_ability_def)
qed

lemma result_continuation:
  assumes "well_formed st" "is_continuation_row tr" "currentAbility st = Some cur"
  shows "well_formed (row_step heroId tr st)"
    and "result_of (row_step heroId tr st)
          = butlast (result_of st) @ [continue_with tr (last (result_of st))]"
proof -
  let ?out = "abilitiesToInsert st"
  from assms(1,3) have ne: "?out \<noteq> []" and c: "stats cur = length ?out - 1"
    and l: "length (heap st) = length ?out" and m: "map stats ?out = [0..<length ?out]"
    by (simp_all add: well_formed_def)
  from ne obtain os a where out: "?out = os @ [a]"
    by (metis append_butlast_last_id)
  from ne l have "heap st \<noteq> []" by auto
  then obtain hs ha where hp: "heap st = hs @ [ha]"
    by (metis append_butlast_last_id)
  from l out hp have lh: "length os = length hs" by simp
  from m out have mo: "map stats os = [0..<length hs]" and sa: "stats a = length hs"
    by (simp_all add: lh)
  from c out lh have c': "stats cur = length hs" by simp
  with hp have b: "stats cur < length (heap st)" by simp
  let ?d = "row_description tr"
  let ?a' = "if ?d \<noteq> [] then a\<lparr>description := ?d\<rparr> else a"
  let ?cur' = "if ?d \<noteq> [] then cur\<lparr>description := ?d\<rparr> else cur"
  have step: "row_step heroId tr st =
      \<lparr>currentAbility = Some ?cur', abilitiesToInsert = os @ [?a'],
       heap = hs @ [store_pairs (row_pairs tr) ha]\<rparr>"
    unfolding row_step_continuation [OF assms(2,3) b]
    using assms(3) out hp c'
    by (cases st) (simp add: set_description_def Let_def)
  from mo sa lh c' show "well_formed (row_step heroId tr st)"
    by (simp add: step well_formed_def)
  have old: "result_of st = map (deref hs) os @ [deref (hs @ [ha]) a]"
    using map_deref_append [OF mo] by (simp add: result_of_def out hp)
  have new: "result_of (row_step heroId tr st)
      = map (deref hs) os @ [deref (hs @ [store_pairs (row_pairs tr) ha]) ?a']"
    using map_deref_append [OF mo] by (simp add: result_of_def step)
  have "deref (hs @ [store_pairs (row_pairs tr) ha]) ?a' = continue_with tr (deref (hs @ [ha]) a)"
    by (simp add: deref_def continue_with_def sa)
  with old new show "result_of (row_step heroId tr st)
      = butlast (result_of st) @ [continue_with tr (last (result_of st))]"
    by simp
qed

lemma continuation_not_start: "is_continuation_row tr \<Longrightarrow> \<not> is_start_row tr"
  by (simp add: is_continuation_row_def is_start_row_def)

lemma result_step:
  assumes "well_formed st"
  shows "well_formed (row_step heroId tr st) \<and>
         result_of (row_step heroId tr st) = ability_step heroId tr (result_of st)"
proof (cases "is_start_row tr")
  case True
  with assms show ?thesis
    by (simp add: result_start ability_step_def)
next
  case False
  show ?thesis
  proof (cases "is_continuation_row tr")
    case c: False
    with False assms show ?thesis
      by (simp add: row_step_other ability_step_def)
  next
    case c: True
    show ?thesis
    proof (cases "currentAbility st")
      case None
      with assms have "result_of st = []"
        by (simp add: well_formed_def result_of_def)
      with None False assms show ?thesis
        by (simp add: row_step_orphan ability_step_def)
    next
      case (Some cur)
      with assms have "result_of st \<noteq> []"
        by (simp add: well_formed_def result_of_def)
      with Some False c assms show ?thesis
        by (simp add: result_continuation ability_step_def)
    qed
  qed
qed

lemma run_rows_snoc: "run_rows heroId (rows @ [tr]) = row_step heroId tr (run_rows heroId rows)"
  by (simp add: run_rows_def)

lemma run_rows_result:
  "well_formed (run_rows heroId rows) \<and>
   result_of (run_rows heroId rows) = fold (ability_step heroId) rows []"
proof (induction rows rule: rev_induct)
  case Nil
  show ?case
    by (simp add: run_rows_def well_formed_initial) (simp add: result_of_def initial_state_def)
next
  case (snoc tr rows)
  then show ?case
    using result_step [of "run_rows heroId rows" heroId tr]
    by (simp add: run_rows_snoc)
qed

text \<open>
  The indices the loop uses are in range: whenever \<open>currentAbility\<close> is set, something
  was pushed, and its stats reference is that of the last pushed object and points
  into the heap.
\<close>

lemma current_is_last:
  assumes "currentAbility (run_rows heroId rows) = Some cur"
  shows "abilitiesToInsert (run_rows heroId rows) \<noteq> []"
    and "stats cur = length (abilitiesToInsert (run_rows heroId rows)) - 1"
    and "stats cur < length (heap (run_rows heroId rows))"
proof -
  have w: "well_formed (run_rows heroId rows)"
    using run_rows_result [of heroId rows] by simp
  with assms show "abilitiesToInsert (run_rows heroId rows) \<noteq> []"
    and c: "stats cur = length (abilitiesToInsert (run_rows heroId rows)) - 1"
    by (simp_all add: well_formed_def)
  then show "stats cur < length (heap (run_rows heroId rows))"
    using w by (simp add: well_formed_def)
qed

lemma fold_ability_step:
  "fold (ability_step heroId) rows out =
     (if out = [] then []
      else butlast out @ [continue_all (takeWhile (\<lambda>r. \<not> is_start_row r) rows) (last out)])
     @ by_segments heroId rows"
proof (induction rows arbitrary: out)
  case Nil
  show ?case by (simp add: continue_all_def)
next
  case (Cons tr rows)
  show ?case
  proof (cases "is_start_row tr")
    case True
    then have s: "ability_step heroId tr out = out @ [start_ability heroId tr]"
      by (simp add: ability_step_def)
    from True show ?thesis
      by (simp add: Cons.IH s continue_all_def)
  next
    case False
    show ?thesis
    proof (cases "is_continuation_row tr \<and> out \<noteq> []")
      case True
      with False have s: "ability_step heroId tr out = butlast out @ [continue_with tr (last out)]"
        by (simp add: ability_step_def)
      from True False show ?thesis
        by (simp add: Cons.IH s continue_all_def)
    next
      case f: False
      with False have s: "ability_step heroId tr out = out"
        by (simp add: ability_step_def)
      from f False show ?thesis
        by (auto simp: Cons.IH s continue_all_def)
    qed
  qed
qed

text \<open>
  Storing pairs in order leaves, under each key, the value of the last pair with that
  key; nothing is ever stored under \<open>__proto__\<close>.
\<close>

lemma store_pairs_snoc:
  "store_pairs (kvs @ [kv]) obj = set_prop (store_pairs kvs obj) (fst kv) (snd kv)"
  by (simp add: store_pairs_def)

lemma store_pairs_lookup:
  "store_pairs kvs Map.empty key =
     (if key = js ''__proto__'' then None else map_of (rev kvs) key)"
proof (induction kvs rule: rev_induct)
  case Nil
  show ?case by (simp add: store_pairs_def)
next
  case (snoc kv kvs)
  then show ?case
    by (cases kv) (auto simp: store_pairs_snoc set_prop_def)
qed

lemma store_pairs_append:
  "store_pairs (xs @ ys) obj = store_pairs ys (store_pairs xs obj)"
  by (simp add: store_pairs_def)

lemma continue_all_fields:
  "name (continue_all seg a) = name a"
  "type (continue_all seg a) = type a"
  "hero_id (continue_all seg a) = hero_id a"
  "stats (continue_all seg a) = store_pairs (segment_pairs seg) (stats a)"
proof -
  have "name (fold continue_with rs a) = name a \<and> type (fold continue_with rs a) = type a \<and>
        hero_id (fold continue_with rs a) = hero_id a \<and>
        stats (fold continue_with rs a) = store_pairs (concat (map row_pairs rs)) (stats a)" for rs
  proof (induction rs arbitrary: a)
    case Nil
    show ?case by (simp add: store_pairs_def)
  next
    case (Cons r rs)
    show ?case
      by (simp add: Cons.IH store_pairs_append) (simp add: continue_with_def)
  qed
  then show "name (continue_all seg a) = name a" "type (continue_all seg a) = type a"
    "hero_id (continue_all seg a) = hero_id a"
    "stats (continue_all seg a) = store_pairs (segment_pairs seg) (stats a)"
    by (simp_all add: continue_all_def segment_pairs_def)
qed

lemma by_segments_start:
  "map (\<lambda>a. (name a, type a, hero_id a)) (by_segments heroId rows) =
     map (\<lambda>tr. (name (start_ability heroId tr), type (start_ability heroId tr), heroId))
       (filter is_start_row rows)"
  by (induction rows) (simp_all add: continue_all_fields, simp add: start_ability_def)

lemma by_segments_stats:
  "map stats (by_segments heroId rows) =
     map (\<lambda>seg. store_pairs (segment_pairs seg) Map.empty) (segments rows)"
  by (induction rows) (simp_all add: continue_all_fields, simp add: start_ability_def)

lemma extract_by_segments:
  "extractNewFormatAbilities skillTable heroId = by_segments heroId (ability_rows skillTable)"
  by (simp add: extractNewFormatAbilities_def run_rows_result fold_ability_step)

text \<open>Evaluating the examples.\<close>

lemmas row_eval =
  example_table_def web_strike_start_def web_strike_more_def ultimate_cell_def
  ability_rows_def is_start_row_def is_continuation_row_def cells_def
  start_ability_def start_type_def truthy_def row_description_def row_pairs_def
  segment_pairs_def bold_stat_def normalize_key_def strip_suffix_def replace_spaces_def
  store_pairs_def set_prop_def continue_with_def continue_all_def
  List.map_filter_simps Let_def

lemma rows_example: "ability_rows (example_table rows) = tbody_rows True rows"
  by (simp add: ability_rows_def example_table_def dom_eval)

lemma web_strike_rows:
  "is_start_row web_strike_start" "\<not> is_start_row web_strike_more"
  "is_continuation_row web_strike_more"
  by (simp_all add: row_eval dom_eval)

lemma run_start_only:
  "result_of (run_rows heroId [web_strike_start]) = [start_ability heroId web_strike_start]"
  by (simp add: run_rows_result ability_step_def web_strike_rows)

section \<open>Abilities of the current format\<close>

lemma capitalizeWords_title_case: "capitalizeWords s = title_case s"
proof -
  have "map capitalizeWord (map toLowerCase ws) = map title_word ws" for ws
    by (simp add: capitalizeWord_def title_word_def)
  then show ?thesis
    by (simp only: capitalizeWords_def title_case_def split_space_lower)
qed

lemma start_type_cases:
  "start_type typeCell =
     (case find_in [[Tag (js ''img'')]] typeCell of
        [] \<Rightarrow> toUpperCase (trim (text_of typeCell))
      | img # _ \<Rightarrow>
          if img_label img = Some (js ''Left mouse button'') then js ''Left Mouse Button''
          else if img_label img = Some (js ''Right mouse button'') then js ''Right Mouse Button''
          else [])"
  by (cases "find_in [[Tag (js ''img'')]] typeCell")
    (simp_all add: start_type_def img_label_def sel_attr_def Let_def split del: if_split cong: if_cong)

text \<open>The two readings of a row's pairs agree.\<close>

lemma sep_units: "js '' - '' = [0x20, 0x2D, 0x20]"
  by (simp add: js_def)

lemma split_sep_Cons:
  "split_sep (a # t) =
     (if take (length [0x20, 0x2D, 0x20 :: nat]) (a # t) = [0x20, 0x2D, 0x20]
      then Some ([], drop (length [0x20, 0x2D, 0x20 :: nat]) (a # t))
      else map_option (\<lambda>p. (a # fst p, snd p)) (split_sep t))"
proof (cases t)
  case Nil
  then show ?thesis by simp
next
  case (Cons b t')
  then show ?thesis by (cases t') auto
qed

lemma split_sep_indexOf_gen:
  assumes "sep = [0x20, 0x2D, 0x20]"
  shows "split_sep t =
     (case indexOf sep t of
        None \<Rightarrow> None
      | Some i \<Rightarrow> Some (take i t, drop (i + length sep) t))"
proof (induction t)
  case Nil
  show ?case by (simp add: assms)
next
  case (Cons a t)
  have c: "split_sep (a # t) =
     (if take (length sep) (a # t) = sep then Some ([], drop (length sep) (a # t))
      else map_option (\<lambda>p. (a # fst p, snd p)) (split_sep t))"
    unfolding assms by (rule split_sep_Cons)
  show ?case
    unfolding c Cons.IH
    by (simp split: option.splits)
qed

lemma split_sep_indexOf:
  "split_sep t =
     (case indexOf [0x20, 0x2D, 0x20] t of
        None \<Rightarrow> None
      | Some i \<Rightarrow> Some (take i t, drop (i + 3) t))"
proof -
  have l: "length [0x20, 0x2D, 0x20 :: nat] = 3" by simp
  show ?thesis
    using split_sep_indexOf_gen [OF refl, of t] unfolding l .
qed

lemma strip_suffix_snoc2:
  "strip_suffix [x, y] s = (case rev s of a # b # r \<Rightarrow> if a = y \<and> b = x then rev r else s | _ \<Rightarrow> s)"
proof (cases "rev s")
  case Nil
  then show ?thesis by (simp add: strip_suffix_def)
next
  case (Cons a r)
  note c1 = this
  show ?thesis
  proof (cases r)
    case Nil
    with c1 have "s = [a]" by (metis rev_rev_ident rev.simps rev_singleton_conv)
    then show ?thesis by (simp add: strip_suffix_def)
  next
    case (Cons b r')
    with c1 have s: "s = rev r' @ [b, a]" by (metis rev_rev_ident rev.simps append.assoc append_Cons append_Nil)
    then show ?thesis
      by (auto simp: strip_suffix_def)
  qed
qed

lemma strip_suffix_snoc1:
  "strip_suffix [x] s = (case rev s of c # r \<Rightarrow> if c = x then rev r else s | [] \<Rightarrow> s)"
proof (cases "rev s")
  case Nil
  then show ?thesis by (simp add: strip_suffix_def)
next
  case (Cons a r)
  then have s: "s = rev r @ [a]" by (metis rev_rev_ident rev.simps)
  then show ?thesis
    by (auto simp: strip_suffix_def)
qed

lemma normalize_key_spec: "normalize_key s = spec_key s"
proof -
  have m: "replace_spaces (toLowerCase s) = map (\<lambda>c. if c = 0x20 then 0x5F else lower1 c) s"
    by (simp add: replace_spaces_def toLowerCase_def lower1_space)
  have u: "js ''_-'' = [0x5F, 0x2D]" by (simp add: js_def)
  show ?thesis
    by (simp only: normalize_key_def spec_key_def m u strip_suffix_snoc2 Let_def)
qed

lemma without_colon_strip: "strip_suffix (js '':'') s = without_colon s"
proof -
  have u: "js '':'' = [0x3A]" by (simp add: js_def)
  show ?thesis by (simp only: u strip_suffix_snoc1 without_colon_def)
qed

lemma bold_stat_spec:
  "bold_stat b =
     (if fst (spec_pair b) \<noteq> [] \<and> snd (spec_pair b) \<noteq> [] then Some (spec_pair b) else None)"
  by (cases "indexOf [0x20, 0x2D, 0x20] (trim (text_of (fst b)))"; cases "snd b")
    (simp_all add: bold_stat_def spec_pair_def sep_units split_sep_indexOf normalize_key_spec
      without_colon_strip Let_def)

lemma map_filter_spec:
  "(\<And>x. f x = (if P (g x) then Some (g x) else None)) \<Longrightarrow>
   List.map_filter f xs = filter P (map g xs)"
  by (induction xs) (simp_all add: List.map_filter_simps)

lemma row_pairs_spec: "row_pairs tr = spec_row_pairs tr"
  unfolding row_pairs_def spec_row_pairs_def
  by (rule map_filter_spec) (rule bold_stat_spec)

lemma segment_pairs_spec: "segment_pairs seg = spec_segment_pairs seg"
proof -
  have "row_pairs = spec_row_pairs"
    by (rule ext) (rule row_pairs_spec)
  then show ?thesis
    by (simp only: segment_pairs_def spec_segment_pairs_def)
qed

lemma start_ability_spec:
  "name (start_ability heroId tr) = row_name tr"
  "type (start_ability heroId tr) = row_type tr"
  by (simp_all add: start_ability_def row_name_def row_type_def capitalizeWords_title_case
      start_type_cases)

text \<open>
  What the strategy emits, segment by segment: one ability for each row with exactly
  three data cells (the rows are the \<open>tr\<close> children of the table's \<open>tbody\<close>
  elements, the cells of a row its \<open>td\<close> elements), in the order of those rows, with
  the name and type of its row; and under every key but \<open>__proto__\<close> its stats holds
  the value of the last pair with that key read from the continuation rows between its
  start row and the next one (\<open>segments\<close> gives, for each start row, the rows up to the
  next start row), and nothing when there is no such pair.
\<close>

lemma extract_segmentwise:
  "length (extractNewFormatAbilities skillTable heroId)
     = length (filter is_start_row (ability_rows skillTable)) \<and>
   map (\<lambda>a. (name a, type a, hero_id a)) (extractNewFormatAbilities skillTable heroId)
     = map (\<lambda>tr. (row_name tr, row_type tr, heroId)) (filter is_start_row (ability_rows skillTable)) \<and>
   map (\<lambda>a. stats a key) (extractNewFormatAbilities skillTable heroId)
     = map (\<lambda>seg. if key = js ''__proto__'' then None
                    else map_of (rev (spec_segment_pairs seg)) key)
         (segments (ability_rows skillTable))"
proof -
  let ?out = "extractNewFormatAbilities skillTable heroId"
  let ?rows = "ability_rows skillTable"
  have f: "map (\<lambda>a. (name a, type a, hero_id a)) ?out
      = map (\<lambda>tr. (row_name tr, row_type tr, heroId)) (filter is_start_row ?rows)"
    by (simp only: extract_by_segments by_segments_start start_ability_spec)
  have "length (map (\<lambda>a. (name a, type a, hero_id a)) ?out)
      = length (map (\<lambda>tr. (row_name tr, row_type tr, heroId)) (filter is_start_row ?rows))"
    by (simp only: f)
  then have l: "length ?out = length (filter is_start_row ?rows)"
    by simp
  have "map (\<lambda>a. stats a key) ?out = map (\<lambda>m. m key) (map stats ?out)"
    by simp
  also have "\<dots> = map (\<lambda>m. m key)
      (map (\<lambda>seg. store_pairs (segment_pairs seg) Map.empty) (segments ?rows))"
    by (simp only: extract_by_segments by_segments_stats)
  also have "\<dots> = map (\<lambda>seg. if key = js ''__proto__'' then None
                    else map_of (rev (spec_segment_pairs seg)) key) (segments ?rows)"
    by (simp add: store_pairs_lookup segment_pairs_spec)
  finally show ?thesis using f l by blast
qed

text \<open>The example of the specification: one start row and one continuation row.\<close>

lemma web_strike_example:
  "map (\<lambda>a. (name a, type a, hero_id a))
     (extractNewFormatAbilities (example_table [web_strike_start, web_strike_more]) (js ''h1''))
     = [(js ''Web Strike'', Str (js ''Left Mouse Button''), js ''h1'')] \<and>
   map (\<lambda>a. stats a (js ''cooldown''))
     (extractNewFormatAbilities (example_table [web_strike_start, web_strike_more]) (js ''h1''))
     = [Some (js ''6s'')]"
proof -
  let ?t = "example_table [web_strike_start, web_strike_more]"
  have r: "ability_rows ?t = [web_strike_start, web_strike_more]"
    by (simp add: rows_example) (simp add: web_strike_start_def web_strike_more_def dom_eval)
  have n: "row_name web_strike_start = js ''Web Strike''"
    "row_type web_strike_start = Str (js ''Left Mouse Button'')"
    by (simp_all add: start_ability_spec [symmetric, of _ "[]"] row_eval dom_eval string_eval)
  have p: "spec_segment_pairs [web_strike_more] = [(js ''cooldown'', js ''6s'')]"
    by (simp add: spec_segment_pairs_def web_strike_rows)
      (simp add: spec_row_pairs_def spec_pair_def spec_key_def without_colon_def
        web_strike_more_def cells_def lower1_def trim_def dom_eval)
  from extract_segmentwise [of ?t "js ''h1''" "js ''cooldown''"] show ?thesis
    by (simp add: r web_strike_rows n p) (simp add: js_def)
qed

lemma proto_row_continuation: "is_continuation_row proto_row" "\<not> is_start_row proto_row"
  by (simp_all add: proto_row_def row_eval dom_eval)

text \<open>
  Claim C1: the strategy emits as many abilities as the skill table has rows with
  exactly three data cells, in row order, and the stats of each ability contains
  exactly the normalized key/value pairs read from the continuation rows between its
  start row and the next. Count and order hold, and so do the stats under every other
  key (\<open>extract_segmentwise\<close>), but a pair whose key is \<open>__proto__\<close> is read and never
  stored: \<open>currentAbility.stats[key] = value\<close> on an object literal reaches the setter
  inherited from \<open>Object.prototype\<close>, which ignores a string. Here the continuation
  row of the one ability gives two pairs, and its stats holds the first only.
\<close>

theorem stats_lose_proto_key:
  "segments (ability_rows (example_table [web_strike_start, proto_row])) = [[proto_row]] \<and>
   spec_segment_pairs [proto_row]
     = [(js ''special_effect'', js ''Slow''), (js ''__proto__'', js ''x'')] \<and>
   map (\<lambda>a. (stats a (js ''special_effect''), stats a (js ''__proto__'')))
     (extractNewFormatAbilities (example_table [web_strike_start, proto_row]) (js ''h1''))
     = [(Some (js ''Slow''), None)]"
proof -
  let ?t = "example_table [web_strike_start, proto_row]"
  have r: "ability_rows ?t = [web_strike_start, proto_row]"
    by (simp add: rows_example) (simp add: web_strike_start_def proto_row_def dom_eval)
  have s: "segments [web_strike_start, proto_row] = [[proto_row]]"
    by (simp add: web_strike_rows proto_row_continuation)
  have p: "spec_segment_pairs [proto_row]
      = [(js ''special_effect'', js ''Slow''), (js ''__proto__'', js ''x'')]"
    by (simp add: spec_segment_pairs_def proto_row_continuation)
      (simp add: spec_row_pairs_def spec_pair_def spec_key_def without_colon_def proto_row_def
        cells_def lower1_def trim_def dom_eval)
  have "map stats (extractNewFormatAbilities ?t (js ''h1''))
      = map (\<lambda>seg. store_pairs (segment_pairs seg) Map.empty) (segments (ability_rows ?t))"
    by (simp only: extract_by_segments by_segments_stats)
  then have "map stats (extractNewFormatAbilities ?t (js ''h1''))
      = [store_pairs [(js ''special_effect'', js ''Slow''), (js ''__proto__'', js ''x'')] Map.empty]"
    by (simp only: r s segment_pairs_spec p list.map)
  then have "map (\<lambda>m. (m (js ''special_effect''), m (js ''__proto__'')))
        (map stats (extractNewFormatAbilities ?t (js ''h1'')))
      = [(Some (js ''Slow''), None)]"
    by (simp add: store_pairs_def set_prop_def js_def)
  then have v: "map (\<lambda>a. (stats a (js ''special_effect''), stats a (js ''__proto__'')))
        (extractNewFormatAbilities ?t (js ''h1''))
      = [(Some (js ''Slow''), None)]"
    by (simp add: comp_def)
  have "segments (ability_rows ?t) = [[proto_row]]"
    by (simp only: r s)
  with p v show ?thesis
    by (simp only: simp_thms)
qed

section \<open>Continuation rows\<close>

lemma no_start_rows: "filter is_start_row rows = [] \<Longrightarrow> run_rows heroId rows = initial_state"
proof (induction rows rule: rev_induct)
  case Nil
  show ?case by (simp add: run_rows_def)
next
  case (snoc tr rows)
  then have "run_rows heroId rows = initial_state" "\<not> is_start_row tr"
    by (simp_all split: if_splits)
  then show ?case
    by (simp add: run_rows_snoc row_step_orphan initial_state_def)
qed

text \<open>
  Claim C4: a continuation row (one cell, spanning the three columns) changes only the
  most recently started ability, the last of the list: the abilities before it stay as
  they are, and the last one gets the row's description and pairs. While no ability
  was started the row changes nothing, neither the state (\<open>currentAbility\<close> stays
  unset) nor the output; before any start row that state is the initial one.
\<close>

theorem continuation_row_updates_last:
  assumes "is_continuation_row tr"
  shows "(currentAbility (run_rows heroId pre) = None \<longrightarrow>
           run_rows heroId (pre @ [tr]) = run_rows heroId pre) \<and>
         (filter is_start_row pre = [] \<longrightarrow> run_rows heroId (pre @ [tr]) = initial_state) \<and>
         result_of (run_rows heroId (pre @ [tr])) =
           (if result_of (run_rows heroId pre) = [] then []
            else butlast (result_of (run_rows heroId pre))
                   @ [continue_with tr (last (result_of (run_rows heroId pre)))])"
proof -
  from assms have ns: "\<not> is_start_row tr" by (rule continuation_not_start)
  have a: "run_rows heroId (pre @ [tr]) = run_rows heroId pre"
    if "currentAbility (run_rows heroId pre) = None"
    using that ns by (simp add: run_rows_snoc row_step_orphan)
  have b: "run_rows heroId (pre @ [tr]) = initial_state" if "filter is_start_row pre = []"
  proof -
    from that ns have "filter is_start_row (pre @ [tr]) = []" by simp
    then show ?thesis by (rule no_start_rows)
  qed
  have "result_of (run_rows heroId (pre @ [tr])) = ability_step heroId tr (result_of (run_rows heroId pre))"
    using run_rows_result [of heroId pre] result_step [of "run_rows heroId pre" heroId tr]
    by (simp add: run_rows_snoc)
  with assms ns have c: "result_of (run_rows heroId (pre @ [tr])) =
           (if result_of (run_rows heroId pre) = [] then []
            else butlast (result_of (run_rows heroId pre))
                   @ [continue_with tr (last (result_of (run_rows heroId pre)))])"
    by (simp add: ability_step_def)
  from a b c show ?thesis by blast
qed

theorem continuation_row_updates_last_witness:
  "is_continuation_row web_strike_more \<and>
   run_rows (js ''h1'') [web_strike_more] = initial_state \<and>
   map description (result_of (run_rows (js ''h1'') [web_strike_start, web_strike_more]))
     = [js ''Hits.'']"
proof -
  note c = web_strike_rows(3)
  from continuation_row_updates_last [OF c, of "js ''h1''" "[]"]
  have a: "run_rows (js ''h1'') [web_strike_more] = initial_state"
    by simp
  from continuation_row_updates_last [OF c, of "js ''h1''" "[web_strike_start]"]
  have "result_of (run_rows (js ''h1'') [web_strike_start, web_strike_more])
      = [continue_with web_strike_more (start_ability (js ''h1'') web_strike_start)]"
    by (simp add: run_start_only)
  moreover have "description (continue_with web_strike_more (start_ability (js ''h1'') web_strike_start))
      = js ''Hits.''"
    by (simp add: row_eval dom_eval string_eval)
  ultimately show ?thesis using a c by simp
qed

section \<open>Start rows\<close>

text \<open>
  Claim C5, as stated: the type of a start row is a mouse-button name when the first
  cell contains an image whose label names a mouse button, and the cell's trimmed
  upper-cased text otherwise (\<open>spec_start_type\<close>). The code reads the text only when
  the cell has no image at all: with an image whose label names no mouse button the
  type stays empty, where the sentence gives the text \<open>Q\<close>.
\<close>

theorem start_row_unrecognised_image:
  "map type (extractNewFormatAbilities
       (example_table [el ''tr'' [] [ultimate_cell, el ''td'' [] [], el ''td'' [] [tx ''x'']]])
       (js ''h1'')) = [Str []] \<and>
   spec_start_type ultimate_cell = js ''Q''"
proof -
  let ?tr = "el ''tr'' [] [ultimate_cell, el ''td'' [] [], el ''td'' [] [tx ''x'']]"
  have r: "ability_rows (example_table [?tr]) = [?tr]"
    by (simp add: rows_example) (simp add: ultimate_cell_def dom_eval)
  have s: "is_start_row ?tr"
    by (simp add: row_eval dom_eval)
  have t: "type (start_ability (js ''h1'') ?tr) = Str []"
    by (simp add: row_eval dom_eval)
  have "map type (by_segments (js ''h1'') [?tr]) = [Str []]"
    by (simp add: s continue_all_fields t)
  moreover have "spec_start_type ultimate_cell = js ''Q''"
    by (simp add: spec_start_type_def img_label_def row_eval dom_eval string_eval)
  ultimately show ?thesis
    by (simp only: extract_by_segments r simp_thms)
qed

text \<open>
  Claim C5, amended: a start row appends one ability with empty description and stats.
  When its first cell contains an image, the label of the first image (its title, or
  its alt when the title is missing or empty) decides the type: \<open>Left Mouse Button\<close>
  or \<open>Right Mouse Button\<close> when the label is exactly \<open>Left mouse button\<close> or
  \<open>Right mouse button\<close>, and the empty string otherwise. When the cell contains no
  image the type is its trimmed upper-cased text. The name is the last cell's trimmed
  text in title case: each piece between single spaces lower-cased, its first
  character then upper-cased.
\<close>

theorem start_row_type_and_name:
  assumes "is_start_row tr"
  shows "result_of (run_rows heroId (pre @ [tr])) = result_of (run_rows heroId pre) @
     [\<lparr>name = title_case (trim (text_of (last (cells tr)))),
       type = Str (case find_in [[Tag (js ''img'')]] (hd (cells tr)) of
                     [] \<Rightarrow> toUpperCase (trim (text_of (hd (cells tr))))
                   | img # _ \<Rightarrow>
                       if img_label img = Some (js ''Left mouse button'')
                       then js ''Left Mouse Button''
                       else if img_label img = Some (js ''Right mouse button'')
                       then js ''Right Mouse Button''
                       else []),
       description = [], stats = Map.empty, hero_id = heroId\<rparr>]"
proof -
  have "well_formed (run_rows heroId pre)"
    using run_rows_result [of heroId pre] by simp
  then have "result_of (run_rows heroId (pre @ [tr]))
      = result_of (run_rows heroId pre) @ [start_ability heroId tr]"
    using assms by (simp only: run_rows_snoc result_start)
  then show ?thesis
    by (simp only: start_ability_def capitalizeWords_title_case start_type_cases)
qed

theorem start_row_type_and_name_witness:
  "is_start_row web_strike_start \<and>
   map (\<lambda>a. (name a, type a)) (result_of (run_rows (js ''h1'') [web_strike_start]))
     = [(js ''Web Strike'', Str (js ''Left Mouse Button''))]"
proof -
  note s = web_strike_rows(1)
  have e: "result_of (run_rows (js ''h1'') []) = []"
    by (simp add: run_rows_def result_of_def initial_state_def)
  have c: "cells web_strike_start =
      [el ''td'' [] [el ''img'' [(''title'', ''Left mouse button'')] []],
       el ''td'' [] [], el ''td'' [] [tx ''web STRIKE'']]"
    by (simp add: row_eval dom_eval)
  from start_row_type_and_name [OF s, of "js ''h1''" "[]"] s show ?thesis
    unfolding e c
    by (simp add: title_case_def title_word_def img_label_def truthy_def dom_eval string_eval)
qed

section \<open>Empty names and types\<close>

lemma toUpperCase_empty: "toUpperCase s = [] \<longleftrightarrow> s = []"
  by (cases s) (auto simp: toUpperCase_def upper1_def)

lemma length_capitalizeWord: "length w \<le> length (capitalizeWord w)"
  by (cases w) (auto simp: capitalizeWord_def toUpperCase_def upper1_def)

lemma length_join_map:
  "(\<And>w. length w \<le> length (f w)) \<Longrightarrow> length (join sep ws) \<le> length (join sep (map f ws))"
proof (induction sep ws rule: join.induct)
  case (3 sep w v ws)
  then have "length (join sep (v # ws)) \<le> length (join sep (map f (v # ws)))" by simp
  with 3(2) [of w] show ?case by simp
qed simp_all

lemma capitalizeWords_empty: "capitalizeWords s = [] \<longleftrightarrow> s = []"
proof
  assume e: "capitalizeWords s = []"
  have "length (join [0x20] (split_space (toLowerCase s)))
      \<le> length (join [0x20] (map capitalizeWord (split_space (toLowerCase s))))"
    by (rule length_join_map) (rule length_capitalizeWord)
  then have "length (toLowerCase s) \<le> length (capitalizeWords s)"
    by (simp only: join_split_space capitalizeWords_def js_space)
  with e show "s = []" by (simp add: toLowerCase_def)
next
  assume "s = []"
  then show "capitalizeWords s = []"
    by (simp add: string_eval)
qed

lemma start_type_missing: "start_type typeCell = [] \<longleftrightarrow> type_missing typeCell"
  by (auto simp: start_type_cases type_missing_def toUpperCase_empty js_def split: list.splits)

text \<open>
  Claim C9, as stated: every emitted ability has a non-empty name and a non-empty
  type, and an ability lacking either is dropped. Neither strategy drops or checks
  anything: a start row of three empty cells is emitted with an empty name and an
  empty type.
\<close>

theorem empty_fields_emitted:
  "map (\<lambda>a. (name a, type a))
     (extractNewFormatAbilities
        (example_table [el ''tr'' [] [el ''td'' [] [], el ''td'' [] [], el ''td'' [] []]])
        (js ''h1'')) = [([], Str [])]"
proof -
  let ?tr = "el ''tr'' [] [el ''td'' [] [], el ''td'' [] [], el ''td'' [] []]"
  have r: "ability_rows (example_table [?tr]) = [?tr]"
    by (simp add: rows_example) (simp add: dom_eval)
  have s: "is_start_row ?tr"
    by (simp add: row_eval dom_eval)
  have t: "name (start_ability (js ''h1'') ?tr) = []" "type (start_ability (js ''h1'') ?tr) = Str []"
    by (simp_all add: row_eval dom_eval string_eval)
  have "map (\<lambda>a. (name a, type a)) (by_segments (js ''h1'') [?tr]) = [([], Str [])]"
    by (simp add: s continue_all_fields t)
  then show ?thesis
    by (simp only: extract_by_segments r)
qed

text \<open>
  Claim C9, amended: under either strategy every start row (current format) and every
  info panel (legacy format) yields one emitted ability, in order, and none is
  dropped. The name of an emitted ability is empty exactly when the trimmed text it is
  read from is empty. Its type is empty exactly when, in the current format, the first
  cell's first image names no mouse button or the cell has neither image nor text,
  and, in the legacy format, the trimmed key-binding text is empty.
\<close>

theorem abilities_emitted_unfiltered:
  "map (\<lambda>a. name a = []) (extractNewFormatAbilities skillTable heroId)
     = map (\<lambda>tr. trim (text_of (last (cells tr))) = []) (filter is_start_row (ability_rows skillTable)) \<and>
   map (\<lambda>a. type a = Str []) (extractNewFormatAbilities skillTable heroId)
     = map (\<lambda>tr. type_missing (hd (cells tr))) (filter is_start_row (ability_rows skillTable)) \<and>
   map (\<lambda>a. name a = []) (extractLegacyAbilities page heroId)
     = map (\<lambda>aside. trim (sel_text (find_in [[Class (js ''pi-title'')]] aside)) = [])
         (legacy_asides page) \<and>
   map (\<lambda>a. type a = Str []) (extractLegacyAbilities page heroId)
     = map (\<lambda>aside. trim (sel_text
             (find_in [[Tag (js ''td''), AttrEq (js ''data-source'') (js ''keybind'')]] aside)) = [])
         (legacy_asides page)"
proof -
  let ?out = "extractNewFormatAbilities skillTable heroId"
  let ?starts = "filter is_start_row (ability_rows skillTable)"
  have f: "map (\<lambda>a. (name a, type a, hero_id a)) ?out
      = map (\<lambda>tr. (name (start_ability heroId tr), type (start_ability heroId tr), heroId)) ?starts"
    by (simp only: extract_by_segments by_segments_start)
  have "map (\<lambda>a. name a = []) ?out = map (\<lambda>p. fst p = []) (map (\<lambda>a. (name a, type a, hero_id a)) ?out)"
    by simp
  also have "\<dots> = map (\<lambda>tr. trim (text_of (last (cells tr))) = []) ?starts"
    unfolding f by (simp add: start_ability_def capitalizeWords_empty)
  finally have n: "map (\<lambda>a. name a = []) ?out
      = map (\<lambda>tr. trim (text_of (last (cells tr))) = []) ?starts" .
  have "map (\<lambda>a. type a = Str []) ?out
      = map (\<lambda>p. fst (snd p) = Str []) (map (\<lambda>a. (name a, type a, hero_id a)) ?out)"
    by simp
  also have "\<dots> = map (\<lambda>tr. type_missing (hd (cells tr))) ?starts"
    unfolding f by (simp add: start_ability_def start_type_missing)
  finally have t: "map (\<lambda>a. type a = Str []) ?out
      = map (\<lambda>tr. type_missing (hd (cells tr))) ?starts" .
  have ln: "map (\<lambda>a. name a = []) (extractLegacyAbilities page heroId)
     = map (\<lambda>aside. trim (sel_text (find_in [[Class (js ''pi-title'')]] aside)) = [])
         (legacy_asides page)"
    by (simp add: extractLegacyAbilities_def legacy_ability_def Let_def capitalizeWords_empty)
  have lt: "map (\<lambda>a. type a = Str []) (extractLegacyAbilities page heroId)
     = map (\<lambda>aside. trim (sel_text
             (find_in [[Tag (js ''td''), AttrEq (js ''data-source'') (js ''keybind'')]] aside)) = [])
         (legacy_asides page)"
    by (simp add: extractLegacyAbilities_def legacy_ability_def Let_def mapAbilityType_empty)
  from n t ln lt show ?thesis by blast
qed

theorem abilities_emitted_unfiltered_witness:
  "map (\<lambda>a. name a = []) (extractNewFormatAbilities (example_table [web_strike_start]) (js ''h1''))
     = [False] \<and>
   map (\<lambda>a. type a = Str []) (extractLegacyAbilities legacy_page (js ''h1'')) = [True]"
proof -
  have r: "ability_rows (example_table [web_strike_start]) = [web_strike_start]"
    by (simp add: rows_example) (simp add: web_strike_start_def dom_eval)
  have n: "trim (text_of (last (cells web_strike_start))) \<noteq> []"
    by (simp add: row_eval dom_eval string_eval)
  have l: "map (\<lambda>aside. trim (sel_text
             (find_in [[Tag (js ''td''), AttrEq (js ''data-source'') (js ''keybind'')]] aside)) = [])
         (legacy_asides legacy_page) = [True]"
    by (simp add: legacy_asides_def legacy_page_def dom_eval string_eval)
  from abilities_emitted_unfiltered [of "example_table [web_strike_start]" "js ''h1''" legacy_page]
  show ?thesis
    by (simp add: r web_strike_rows n l)
qed

section \<open>The upsert of the ability pass\<close>

lemma replace_other:
  "\<not> P (key r) \<Longrightarrow>
   filter (\<lambda>x. P (key x)) (map (\<lambda>x. if key x = key r then r else x) table)
     = filter (\<lambda>x. P (key x)) table"
  by (induction table) auto

lemma upsert_row_other:
  "\<not> P (key r) \<Longrightarrow>
   filter (\<lambda>x. P (key x)) (upsert_row key r table) = filter (\<lambda>x. P (key x)) table"
  by (simp add: upsert_row_def replace_other)

lemma upsert_row_keys:
  "set (map key (upsert_row key r table)) = insert (key r) (set (map key table))"
  by (auto simp: upsert_row_def)

lemma map_key_replace:
  "map key (map (\<lambda>x. if key x = key r then r else x) table) = map key table"
  by (induction table) auto

lemma upsert_row_distinct:
  "distinct (map key table) \<Longrightarrow> distinct (map key (upsert_row key r table))"
  by (simp add: upsert_row_def map_key_replace del: map_map)

lemma replace_same:
  "distinct (map key table) \<Longrightarrow> key r \<in> set (map key table) \<Longrightarrow>
   filter (\<lambda>x. key x = key r) (map (\<lambda>x. if key x = key r then r else x) table) = [r]"
proof (induction table)
  case Nil
  then show ?case by simp
next
  case (Cons a table)
  show ?case
  proof (cases "key a = key r")
    case True
    with Cons.prems have "key r \<notin> set (map key table)" by simp
    then have "filter (\<lambda>x. key x = key r) (map (\<lambda>x. if key x = key r then r else x) table) = []"
      by (induction table) auto
    with True show ?thesis by simp
  next
    case False
    with Cons show ?thesis by simp
  qed
qed

lemma upsert_row_same:
  "distinct (map key table) \<Longrightarrow> filter (\<lambda>x. key x = key r) (upsert_row key r table) = [r]"
proof (cases "key r \<in> set (map key table)")
  case True
  assume "distinct (map key table)"
  with True show ?thesis
    by (simp add: upsert_row_def replace_same del: set_map)
next
  case False
  then have "filter (\<lambda>x. key x = key r) table = []"
    by (induction table) auto
  with False show ?thesis
    by (simp add: upsert_row_def)
qed

lemma fold_upsert_other:
  "\<forall>r\<in>set batch. \<not> P (key r) \<Longrightarrow>
   filter (\<lambda>x. P (key x)) (fold (upsert_row key) batch table) = filter (\<lambda>x. P (key x)) table"
  by (induction batch arbitrary: table) (simp_all add: upsert_row_other)

lemma fold_upsert_distinct:
  "distinct (map key table) \<Longrightarrow> distinct (map key (fold (upsert_row key) batch table))"
  by (induction batch arbitrary: table) (simp_all add: upsert_row_distinct)

lemma fold_upsert_same:
  "distinct (map key table) \<Longrightarrow> distinct (map key batch) \<Longrightarrow> r \<in> set batch \<Longrightarrow>
   filter (\<lambda>x. key x = key r) (fold (upsert_row key) batch table) = [r]"
proof (induction batch arbitrary: table)
  case Nil
  then show ?case by simp
next
  case (Cons b batch)
  show ?case
  proof (cases "r = b")
    case True
    from Cons.prems(2) True have "key r \<notin> key ` set batch"
      by simp
    then have "\<forall>x\<in>set batch. \<not> (\<lambda>k. k = key r) (key x)"
      by (metis imageI)
    then have "filter (\<lambda>x. key x = key r) (fold (upsert_row key) batch (upsert_row key b table))
        = filter (\<lambda>x. key x = key r) (upsert_row key b table)"
      by (rule fold_upsert_other)
    with True Cons.prems(1) show ?thesis
      by (simp add: upsert_row_same)
  next
    case False
    with Cons.prems have "r \<in> set batch" "distinct (map key batch)"
      "distinct (map key (upsert_row key b table))"
      by (simp_all add: upsert_row_distinct)
    then show ?thesis
      by (simp add: Cons.IH)
  qed
qed

text \<open>
  Claim C2, as stated: the abilities are upserted with conflict identity (character,
  name), so that two characters may each keep an ability of the same name. The upsert
  of the pass names the column \<open>name\<close> alone: after a pass over two heroes whose
  pages both list an ability \<open>Dash\<close>, the table holds one row of that name, the second
  hero's.
\<close>

theorem same_name_overwrites:
  "map (\<lambda>a. (hero_id a, name a))
     (scrapeHeroAbilities dash_site
        (Inr [(js ''hero-1'', js ''A''), (js ''hero-2'', js ''B'')]) [])
     = [(js ''hero-2'', js ''Dash'')]"
proof -
  let ?tr = "el ''tr'' [] [el ''td'' [] [tx ''e''], el ''td'' [] [], el ''td'' [] [tx ''dash'']]"
  let ?page = "[example_table [?tr]]"
  have r: "ability_rows (example_table [?tr]) = [?tr]"
    by (simp add: rows_example) (simp add: dom_eval)
  have s: "is_start_row ?tr"
    by (simp add: row_eval dom_eval)
  have a: "start_ability h ?tr = dash h" for h
    by (simp add: row_eval dom_eval string_eval dash_def)
  have x: "extractAbilities ?page h = [dash h]" for h
  proof -
    have "select [[Tag (js ''table''), Class (js ''wikitable''), Class (js ''skill-table'')]] ?page
        = [example_table [?tr]]"
      by (simp add: example_table_def dom_eval)
    then show ?thesis
      by (simp add: extractAbilities_def extract_by_segments r s a continue_all_def)
  qed
  have c: "canScrape dash_site url (js ''*'') = Some True" for url
    by (simp add: canScrape_def dash_site_def)
  have st: "hero_step dash_site (h, n) url table = persist_abilities [dash h] table" for h n url table
    using x [of h] by (simp add: hero_step_def c) (simp add: dash_site_def)
  have u: "getHeroPageUrl dash_site n = Inr (js ''https://marvelrivals.fandom.com/wiki/'' @ replace_spaces n)" for n
    by (simp add: getHeroPageUrl_def dash_site_def)
  show ?thesis
    by (simp add: scrapeHeroAbilities_def u st del: replace_spaces_def)
      (simp add: persist_abilities_def upsert_def upsert_row_def dash_def)
qed

text \<open>
  Claim C2, amended: each batch of extracted abilities is upserted with conflict
  identity \<open>name\<close> alone. With a table whose names are distinct and a non-empty batch
  whose names are distinct, afterwards the rows of the table that carry a name of the
  batch are exactly the batch's rows, whichever character owned a row of that name
  before; the rows with other names are as before; and the names stay distinct.
\<close>

theorem upsert_by_name_alone:
  assumes "distinct (map name table)" "batch \<noteq> []" "distinct (map name batch)"
  shows "(\<forall>r\<in>set batch. filter (\<lambda>x. name x = name r) (persist_abilities batch table) = [r]) \<and>
         filter (\<lambda>x. name x \<notin> set (map name batch)) (persist_abilities batch table)
           = filter (\<lambda>x. name x \<notin> set (map name batch)) table \<and>
         distinct (map name (persist_abilities batch table))"
proof -
  from assms(2,3) have p: "persist_abilities batch table = fold (upsert_row name) batch table"
    by (simp add: persist_abilities_def upsert_def)
  have "\<forall>r\<in>set batch. \<not> (\<lambda>k. k \<notin> set (map name batch)) (name r)" by simp
  then have o: "filter (\<lambda>x. name x \<notin> set (map name batch)) (fold (upsert_row name) batch table)
      = filter (\<lambda>x. name x \<notin> set (map name batch)) table"
    by (rule fold_upsert_other)
  from assms(1,3) o show ?thesis
    unfolding p by (simp add: fold_upsert_same fold_upsert_distinct)
qed

theorem upsert_by_name_alone_witness:
  "persist_abilities [dash (js ''hero-2'')] [dash (js ''hero-1'')] = [dash (js ''hero-2'')]"
proof -
  have d: "distinct (map name [dash (js ''hero-1'')])" "[dash (js ''hero-2'')] \<noteq> []"
    "distinct (map name [dash (js ''hero-2'')])"
    by simp_all
  have "persist_abilities [dash (js ''hero-2'')] [dash (js ''hero-1'')] = [dash (js ''hero-2'')]"
    by (simp add: persist_abilities_def upsert_def upsert_row_def dash_def)
  with upsert_by_name_alone [OF d] show ?thesis by simp
qed

end
